theory Spec2Isabelle
  imports Complex_Main "HOL-Library.Log_Nat" "HOL-Library.Char_ord" "HOL-Library.List_Lexorder"
    "HOL-Library.Multiset"
begin

section \<open>JavaScript numbers\<close>

text \<open>
  A JavaScript number is an IEEE 754 double. A finite double is modelled by the rational
  it denotes, next to the three special values. The two zeros are identified: the code
  below never divides by a zero it has not tested with \<^verbatim>\<open>b === 0\<close>, which both zeros
  satisfy, so the sign of a zero is never observed.
\<close>

datatype jsnum = Num rat | PInf | NInf | NaN

text \<open>\<open>ilog2 x\<close> is the binary exponent of a positive rational: \<open>2 ^ ilog2 x \<le> x < 2 ^ (ilog2 x + 1)\<close>.\<close>

definition ilog2 :: "rat \<Rightarrow> int" where
  "ilog2 x = (if 1 \<le> x then bitlen \<lfloor>x\<rfloor> - 1 else - bitlen (\<lceil>1 / x\<rceil> - 1))"

definition pow2 :: "int \<Rightarrow> rat" where
  "pow2 k = (if 0 \<le> k then 2 ^ nat k else 1 / 2 ^ nat (- k))"

text \<open>Round to the nearest integer, ties to the even one.\<close>

definition roundHalfEven :: "rat \<Rightarrow> int" where
  "roundHalfEven q =
     (let f = \<lfloor>q\<rfloor>; r = q - of_int f
      in if r < 1 / 2 then f else if 1 / 2 < r then f + 1 else if even f then f else f + 1)"

text \<open>
  \<open>fl\<close> rounds an exact result to a double as every arithmetic operation does: to 53
  significant bits, to nearest, ties to even, with gradual underflow below \<open>2^-1022\<close> and
  overflow to an infinity from \<open>2^1024\<close> on.
\<close>

definition fl :: "rat \<Rightarrow> jsnum" where
  "fl x =
     (if x = 0 then Num 0
      else let e = max (ilog2 \<bar>x\<bar>) (- 1022);
               u = pow2 (e - 52);
               r = of_int (roundHalfEven (x / u)) * u
           in if 2 ^ 1024 \<le> \<bar>r\<bar> then (if 0 < x then PInf else NInf) else Num r)"

text \<open>A counting statistic is an integer; JavaScript holds it as the double of that value.\<close>

definition ofInt :: "int \<Rightarrow> jsnum" where
  "ofInt n = Num (of_int n)"

text \<open>The operators \<^verbatim>\<open>/\<close>, \<^verbatim>\<open>*\<close>, \<^verbatim>\<open>+\<close> and \<^verbatim>\<open>-\<close> on numbers.\<close>

fun jsdiv :: "jsnum \<Rightarrow> jsnum \<Rightarrow> jsnum" where
  "jsdiv NaN _ = NaN"
| "jsdiv _ NaN = NaN"
| "jsdiv (Num a) (Num b) =
     (if b = 0 then (if a = 0 then NaN else if 0 < a then PInf else NInf) else fl (a / b))"
| "jsdiv (Num a) PInf = Num 0"
| "jsdiv (Num a) NInf = Num 0"
| "jsdiv PInf (Num b) = (if 0 \<le> b then PInf else NInf)"
| "jsdiv NInf (Num b) = (if 0 \<le> b then NInf else PInf)"
| "jsdiv PInf PInf = NaN"
| "jsdiv PInf NInf = NaN"
| "jsdiv NInf PInf = NaN"
| "jsdiv NInf NInf = NaN"

fun jsmul :: "jsnum \<Rightarrow> jsnum \<Rightarrow> jsnum" where
  "jsmul NaN _ = NaN"
| "jsmul _ NaN = NaN"
| "jsmul (Num a) (Num b) = fl (a * b)"
| "jsmul (Num a) PInf = (if a = 0 then NaN else if 0 < a then PInf else NInf)"
| "jsmul (Num a) NInf = (if a = 0 then NaN else if 0 < a then NInf else PInf)"
| "jsmul PInf (Num b) = (if b = 0 then NaN else if 0 < b then PInf else NInf)"
| "jsmul NInf (Num b) = (if b = 0 then NaN else if 0 < b then NInf else PInf)"
| "jsmul PInf PInf = PInf"
| "jsmul PInf NInf = NInf"
| "jsmul NInf PInf = NInf"
| "jsmul NInf NInf = PInf"

fun jsadd :: "jsnum \<Rightarrow> jsnum \<Rightarrow> jsnum" where
  "jsadd NaN _ = NaN"
| "jsadd _ NaN = NaN"
| "jsadd (Num a) (Num b) = fl (a + b)"
| "jsadd (Num a) PInf = PInf"
| "jsadd (Num a) NInf = NInf"
| "jsadd PInf (Num b) = PInf"
| "jsadd NInf (Num b) = NInf"
| "jsadd PInf PInf = PInf"
| "jsadd PInf NInf = NaN"
| "jsadd NInf PInf = NaN"
| "jsadd NInf NInf = NInf"

fun jsneg :: "jsnum \<Rightarrow> jsnum" where
  "jsneg NaN = NaN"
| "jsneg (Num a) = Num (- a)"
| "jsneg PInf = NInf"
| "jsneg NInf = PInf"

definition jssub :: "jsnum \<Rightarrow> jsnum \<Rightarrow> jsnum" where
  "jssub a b = jsadd a (jsneg b)"

text \<open>
  \<^verbatim>\<open>Number(x.toFixed(f))\<close>. For \<open>\<bar>x\<bar> < 10^21\<close>, \<^verbatim>\<open>toFixed\<close> writes the integer \<open>n\<close> with
  \<open>n / 10^f\<close> nearest to \<open>\<bar>x\<bar>\<close>, the larger one of two, behind the sign of \<open>x\<close>, and
  \<^verbatim>\<open>Number\<close> reads that decimal back as the nearest double. From \<open>10^21\<close> on, and for the
  special values, \<^verbatim>\<open>toFixed\<close> is \<^verbatim>\<open>String(x)\<close>, which \<^verbatim>\<open>Number\<close> reads back as \<open>x\<close>.
\<close>

definition toFixedNumber :: "nat \<Rightarrow> jsnum \<Rightarrow> jsnum" where
  "toFixedNumber f x =
     (case x of
        Num r \<Rightarrow>
          if 10 ^ 21 \<le> \<bar>r\<bar> then Num r
          else let n = \<lfloor>\<bar>r\<bar> * 10 ^ f + 1 / 2\<rfloor>
               in fl ((if r < 0 then - 1 else 1) * of_int n / 10 ^ f)
      | _ \<Rightarrow> x)"

definition isFiniteNum :: "jsnum \<Rightarrow> bool" where
  "isFiniteNum x = (case x of Num _ \<Rightarrow> True | _ \<Rightarrow> False)"

text \<open>A comparator result \<open>v\<close> moves its first argument behind the second when \<open>v > 0\<close>;
  \<^verbatim>\<open>Array.prototype.sort\<close> reads a \<^verbatim>\<open>NaN\<close> result as \<open>+0\<close>.\<close>

fun isPositive :: "jsnum \<Rightarrow> bool" where
  "isPositive (Num r) = (0 < r)"
| "isPositive PInf = True"
| "isPositive NInf = False"
| "isPositive NaN = False"

section \<open>Strings\<close>

text \<open>
  A string is a list of bytes (UTF-8); text outside ASCII is written by its bytes. Searching
  for a substring and comparing for equality give the same answers on UTF-8 bytes as on
  JavaScript's UTF-16 code units.
\<close>

definition isDigit :: "char \<Rightarrow> bool" where
  "isDigit c = (48 \<le> (of_char c :: nat) \<and> (of_char c :: nat) \<le> 57)"

definition digitVal :: "char \<Rightarrow> int" where
  "digitVal c = int (of_char c) - 48"

definition digitsVal :: "string \<Rightarrow> int" where
  "digitsVal ds = foldl (\<lambda>a c. 10 * a + digitVal c) 0 ds"

text \<open>The white space \<^verbatim>\<open>parseInt\<close> skips, within ASCII: space, TAB, LF, VT, FF, CR.\<close>

definition isWhite :: "char \<Rightarrow> bool" where
  "isWhite c = ((of_char c :: nat) = 32 \<or> (9 \<le> (of_char c :: nat) \<and> (of_char c :: nat) \<le> 13))"

text \<open>\<^verbatim>\<open>parseInt(s, 10)\<close>: \<open>None\<close> is \<^verbatim>\<open>NaN\<close>. The value is the exact integer.\<close>

definition parseInt10 :: "string \<Rightarrow> int option" where
  "parseInt10 s =
     (let s1 = dropWhile isWhite s;
          neg = (s1 \<noteq> [] \<and> hd s1 = CHR ''-'');
          s2 = (if s1 \<noteq> [] \<and> (hd s1 = CHR ''-'' \<or> hd s1 = CHR ''+'') then tl s1 else s1);
          ds = takeWhile isDigit s2
      in if ds = [] then None else Some ((if neg then - 1 else 1) * digitsVal ds))"

text \<open>\<^verbatim>\<open>s.split(/[-/]/)\<close> and its like: the pieces between the separator characters.\<close>

fun splitOn :: "(char \<Rightarrow> bool) \<Rightarrow> string \<Rightarrow> string list" where
  "splitOn p [] = [[]]"
| "splitOn p (c # cs) =
     (if p c then [] # splitOn p cs
      else (case splitOn p cs of [] \<Rightarrow> [[c]] | w # ws \<Rightarrow> (c # w) # ws))"

text \<open>\<^verbatim>\<open>String(n)\<close> for an integer \<open>n\<close>.\<close>

fun showNat :: "nat \<Rightarrow> string" where
  "showNat n =
     (if n < 10 then [''0123456789'' ! n] else showNat (n div 10) @ [''0123456789'' ! (n mod 10)])"

declare showNat.simps [simp del]

definition showInt :: "int \<Rightarrow> string" where
  "showInt n = (if n < 0 then CHR ''-'' # showNat (nat (- n)) else showNat (nat n))"

text \<open>\<^verbatim>\<open>s.padStart(2, '0')\<close>\<close>

definition padStart2 :: "string \<Rightarrow> string" where
  "padStart2 s = replicate (2 - length s) CHR ''0'' @ s"

text \<open>\<^verbatim>\<open>s.includes(t)\<close>\<close>

fun strIncludes :: "string \<Rightarrow> string \<Rightarrow> bool" where
  "strIncludes [] t = (t = [])"
| "strIncludes (c # cs) t = (take (length t) (c # cs) = t \<or> strIncludes cs t)"

text \<open>The three literals outside ASCII, by their UTF-8 bytes: the two home-team aliases
  ("arinko" in hiragana, "antosu" in katakana) and the placeholder "fumei" (unknown).\<close>

definition arinko :: string where
  "arinko = [CHR 0xE3, CHR 0x81, CHR 0x82, CHR 0xE3, CHR 0x82, CHR 0x8A, CHR 0xE3, CHR 0x82, CHR 0x93, CHR 0xE3, CHR 0x81, CHR 0x93]"

definition antos :: string where
  "antos = [CHR 0xE3, CHR 0x82, CHR 0xA2, CHR 0xE3, CHR 0x83, CHR 0xB3, CHR 0xE3, CHR 0x83, CHR 0x88, CHR 0xE3, CHR 0x82, CHR 0xB9]"

definition fumei :: string where
  "fumei = [CHR 0xE4, CHR 0xB8, CHR 0x8D, CHR 0xE6, CHR 0x98, CHR 0x8E]"

section \<open>Objects and sorting\<close>

text \<open>
  A plain object used as a dictionary is an association list in insertion order.
  \<^verbatim>\<open>Object.keys\<close> and \<^verbatim>\<open>Object.values\<close> enumerate the keys that are array indices
  (canonical decimal numerals below \<open>2^32 - 1\<close>) first, in ascending numeric order, and
  then the other keys in insertion order. Keys are assumed not to be names of members of
  \<^verbatim>\<open>Object.prototype\<close>.
\<close>

definition isArrayIndex :: "string \<Rightarrow> bool" where
  "isArrayIndex k =
     (k \<noteq> [] \<and> list_all isDigit k \<and> (k = ''0'' \<or> hd k \<noteq> CHR ''0'') \<and> digitsVal k < 4294967295)"

definition objectEntries :: "(string \<times> 'v) list \<Rightarrow> (string \<times> 'v) list" where
  "objectEntries obj =
     sort_key (\<lambda>kv. digitsVal (fst kv)) (filter (\<lambda>kv. isArrayIndex (fst kv)) obj)
     @ filter (\<lambda>kv. \<not> isArrayIndex (fst kv)) obj"

definition objectKeys :: "(string \<times> 'v) list \<Rightarrow> string list" where
  "objectKeys obj = map fst (objectEntries obj)"

definition objectValues :: "(string \<times> 'v) list \<Rightarrow> 'v list" where
  "objectValues obj = map snd (objectEntries obj)"

text \<open>\<^verbatim>\<open>obj[k]\<close> read and \<^verbatim>\<open>obj[k] = v\<close> written: an existing key keeps its place.\<close>

fun lookup :: "(string \<times> 'v) list \<Rightarrow> string \<Rightarrow> 'v option" where
  "lookup [] k = None"
| "lookup ((k', v) # kvs) k = (if k' = k then Some v else lookup kvs k)"

fun assign :: "(string \<times> 'v) list \<Rightarrow> string \<Rightarrow> 'v \<Rightarrow> (string \<times> 'v) list" where
  "assign [] k v = [(k, v)]"
| "assign ((k', v') # kvs) k v = (if k' = k then (k, v) # kvs else (k', v') # assign kvs k v)"

text \<open>
  \<^verbatim>\<open>xs.sort(cmp)\<close> is stable. With a comparator that orders the elements consistently
  its result is the one of any stable sort; it is modelled as insertion sort, where
  \<open>gt x y\<close> says that \<^verbatim>\<open>cmp(x, y) > 0\<close>.
\<close>

fun insertBy :: "('a \<Rightarrow> 'a \<Rightarrow> bool) \<Rightarrow> 'a \<Rightarrow> 'a list \<Rightarrow> 'a list" where
  "insertBy gt x [] = [x]"
| "insertBy gt x (y # ys) = (if gt x y then y # insertBy gt x ys else x # y # ys)"

definition sortBy :: "('a \<Rightarrow> 'a \<Rightarrow> bool) \<Rightarrow> 'a list \<Rightarrow> 'a list" where
  "sortBy gt xs = foldr (insertBy gt) xs []"

section \<open>The host environment\<close>

text \<open>
  What the code takes from its JavaScript host: the time zone, here a constant offset of
  local time from UTC in milliseconds; \<^verbatim>\<open>Date.parse\<close>, whose accepted formats are left to
  the implementation (\<open>None\<close> is \<^verbatim>\<open>NaN\<close>); the case-insensitive regular expression
  \<^verbatim>\<open>new RegExp(kw, 'i')\<close> as its \<^verbatim>\<open>test\<close> function (\<open>None\<close> when the pattern is rejected);
  \<^verbatim>\<open>toLowerCase\<close>; \<^verbatim>\<open>localeCompare\<close>; the conversion of a string to a number.
\<close>

record env =
  tzOffset :: int
  dateParse :: "string \<Rightarrow> int option"
  regexCompile :: "string \<Rightarrow> (string \<Rightarrow> bool) option"
  toLowerCase :: "string \<Rightarrow> string"
  localeCompare :: "string \<Rightarrow> string \<Rightarrow> int"
  stringToNumber :: "string \<Rightarrow> jsnum"

section \<open>Dates\<close>

text \<open>
  A \<^verbatim>\<open>Date\<close> holds a time value, milliseconds since the epoch in UTC, or \<^verbatim>\<open>NaN\<close>
  (an invalid date, \<open>None\<close>). The calendar follows ECMA-262: \<open>dayFromYear\<close>, leap years,
  \<open>makeDay\<close>, \<open>timeClip\<close>.
\<close>

type_synonym jsdate = "int option"

definition msPerDay :: int where
  "msPerDay = 86400000"

definition timeClip :: "int \<Rightarrow> jsdate" where
  "timeClip t = (if 8640000000000000 < \<bar>t\<bar> then None else Some t)"

definition dayFromYear :: "int \<Rightarrow> int" where
  "dayFromYear y = 365 * (y - 1970) + (y - 1969) div 4 - (y - 1901) div 100 + (y - 1601) div 400"

definition inLeapYear :: "int \<Rightarrow> bool" where
  "inLeapYear y = ((y mod 4 = 0 \<and> y mod 100 \<noteq> 0) \<or> y mod 400 = 0)"

text \<open>The day within the year on which month \<open>m\<close> (0 to 11) starts.\<close>

definition monthStart :: "bool \<Rightarrow> int \<Rightarrow> int" where
  "monthStart leap m =
     [0, 31, 59, 90, 120, 151, 181, 212, 243, 273, 304, 334] ! nat m + (if leap \<and> 2 \<le> m then 1 else 0)"

text \<open>\<open>yearFromDay n\<close> is the year \<open>y\<close> with \<open>dayFromYear y \<le> n < dayFromYear (y + 1)\<close>:
  the estimate from the mean length of a year is off by one at most.\<close>

definition yearFromDay :: "int \<Rightarrow> int" where
  "yearFromDay n =
     (let y0 = 1970 + (400 * n) div 146097
      in if n < dayFromYear y0 then y0 - 1 else if dayFromYear (y0 + 1) \<le> n then y0 + 1 else y0)"

definition monthFromDay :: "int \<Rightarrow> int" where
  "monthFromDay n =
     (let y = yearFromDay n; d = n - dayFromYear y; l = inLeapYear y
      in if d < monthStart l 1 then 0 else if d < monthStart l 2 then 1
         else if d < monthStart l 3 then 2 else if d < monthStart l 4 then 3
         else if d < monthStart l 5 then 4 else if d < monthStart l 6 then 5
         else if d < monthStart l 7 then 6 else if d < monthStart l 8 then 7
         else if d < monthStart l 9 then 8 else if d < monthStart l 10 then 9
         else if d < monthStart l 11 then 10 else 11)"

definition dateFromDay :: "int \<Rightarrow> int" where
  "dateFromDay n =
     (let y = yearFromDay n in n - dayFromYear y - monthStart (inLeapYear y) (monthFromDay n) + 1)"

definition makeDay :: "int \<Rightarrow> int \<Rightarrow> int \<Rightarrow> int" where
  "makeDay year month date =
     (let ym = year + month div 12; mn = month mod 12
      in dayFromYear ym + monthStart (inLeapYear ym) mn + date - 1)"

text \<open>Local time of a time value, and back.\<close>

definition localTime :: "env \<Rightarrow> int \<Rightarrow> int" where
  "localTime env t = t + tzOffset env"

definition utc :: "env \<Rightarrow> int \<Rightarrow> int" where
  "utc env t = t - tzOffset env"

text \<open>\<^verbatim>\<open>new Date(year, monthIndex, day)\<close>: local midnight; a year from 0 to 99 means 1900 + year.\<close>

definition newDateYMD :: "env \<Rightarrow> int \<Rightarrow> int \<Rightarrow> int \<Rightarrow> jsdate" where
  "newDateYMD env year monthIndex day =
     (let yr = (if 0 \<le> year \<and> year \<le> 99 then 1900 + year else year)
      in timeClip (utc env (makeDay yr monthIndex day * msPerDay)))"

text \<open>\<^verbatim>\<open>new Date(dateStr)\<close>\<close>

definition newDateString :: "env \<Rightarrow> string \<Rightarrow> jsdate" where
  "newDateString env s = (case dateParse env s of None \<Rightarrow> None | Some t \<Rightarrow> timeClip t)"

text \<open>\<^verbatim>\<open>d.getFullYear()\<close>, \<^verbatim>\<open>d.getMonth()\<close>, \<^verbatim>\<open>d.getDate()\<close> of a valid date.\<close>

definition getFullYear :: "env \<Rightarrow> int \<Rightarrow> int" where
  "getFullYear env t = yearFromDay (localTime env t div msPerDay)"

definition getMonth :: "env \<Rightarrow> int \<Rightarrow> int" where
  "getMonth env t = monthFromDay (localTime env t div msPerDay)"

definition getDate :: "env \<Rightarrow> int \<Rightarrow> int" where
  "getDate env t = dateFromDay (localTime env t div msPerDay)"

text \<open>\<^verbatim>\<open>d.setDate(dt)\<close>: the day of the month replaced, the time of day kept.\<close>

definition setDate :: "env \<Rightarrow> int \<Rightarrow> int \<Rightarrow> jsdate" where
  "setDate env t dt =
     (let lt = localTime env t
      in timeClip (utc env (makeDay (getFullYear env t) (getMonth env t) dt * msPerDay + lt mod msPerDay)))"

section \<open>Helper functions\<close>

text \<open>\<^verbatim>\<open>const safeDiv = (a, b) => b === 0 ? 0 : a / b;\<close>\<close>

definition safeDiv :: "jsnum \<Rightarrow> jsnum \<Rightarrow> jsnum" where
  "safeDiv a b = (if b = Num 0 then Num 0 else jsdiv a b)"

text \<open>
  \<open>parseDate\<close>: an empty (or absent) string is the epoch; three pieces between \<^verbatim>\<open>-\<close> or
  \<^verbatim>\<open>/\<close> that all start with an integer make a local date, if that date is valid;
  otherwise the string goes to \<^verbatim>\<open>new Date(dateStr)\<close>, and if that is invalid too the
  result is the epoch.
\<close>

definition parseDate :: "env \<Rightarrow> string \<Rightarrow> jsdate" where
  "parseDate env dateStr =
     (if dateStr = [] then Some 0
      else let parts = splitOn (\<lambda>c. c = CHR ''-'' \<or> c = CHR ''/'') dateStr;
               d = (if length parts = 3 then
                      (case (parseInt10 (parts ! 0), parseInt10 (parts ! 1), parseInt10 (parts ! 2)) of
                         (Some year, Some month, Some day) \<Rightarrow> newDateYMD env year (month - 1) day
                       | _ \<Rightarrow> None)
                    else None)
           in case d of
                Some t \<Rightarrow> Some t
              | None \<Rightarrow> (case newDateString env dateStr of Some t \<Rightarrow> Some t | None \<Rightarrow> Some 0))"

section \<open>Rows\<close>

text \<open>
  A row is one line of a score sheet as \<^verbatim>\<open>parseCSV\<close> decodes it. The columns that
  \<^verbatim>\<open>parseCSV\<close> keeps as text are strings, an absent one the empty string:
  \<open>rPlayerId\<close> (player id), \<open>rName\<close> (name), \<open>rNumber\<close> (jersey number), \<open>rGameId\<close> (game id),
  \<open>rDate\<close> (date), \<open>rTitle\<close> (title), \<open>rSenkou\<close> (team batting first), \<open>rKoukou\<close> (team batting
  second), \<open>rScore\<close> (score). The source names every column in Japanese.
  A counting column holds an integer, and \<^verbatim>\<open>row[col] || 0\<close> is that integer, 0 for an
  absent or empty cell. Integers are exact (JavaScript's are up to \<open>2^53\<close>).
\<close>

record row =
  rPlayerId :: string
  rName :: string
  rNumber :: string
  rGameId :: string
  rDate :: string
  rTitle :: string
  rSenkou :: string
  rKoukou :: string
  rScore :: string

text \<open>
  Batting columns: \<open>b_pa\<close> plate appearances, \<open>b_ab\<close> at-bats, \<open>b_h\<close> hits, \<open>b_doubles\<close>,
  \<open>b_triples\<close>, \<open>b_hr\<close> home runs, \<open>b_rbi\<close> runs batted in, \<open>b_runs\<close> runs scored,
  \<open>b_so\<close> strikeouts, \<open>b_bb\<close> walks, \<open>b_hbp\<close> hit by pitch, \<open>b_sb\<close> stolen bases, \<open>b_sf\<close> sacrifice
  flies, \<open>b_sac\<close> sacrifice bunts.
\<close>

record battingRow = row +
  b_pa :: int
  b_ab :: int
  b_h :: int
  b_doubles :: int
  b_triples :: int
  b_hr :: int
  b_rbi :: int
  b_runs :: int
  b_so :: int
  b_bb :: int
  b_hbp :: int
  b_sb :: int
  b_sf :: int
  b_sac :: int

text \<open>
  Pitching columns: \<open>p_outs\<close> outs recorded, \<open>p_h\<close> hits allowed, \<open>p_r\<close> runs allowed, \<open>p_er\<close>
  earned runs, \<open>p_bb\<close> walks, \<open>p_hbp\<close> hit by pitch, \<open>p_so\<close> strikeouts, \<open>p_win\<close> wins, \<open>p_loss\<close>
  losses, \<open>p_sv\<close> saves, \<open>p_s\<close> strikes thrown, \<open>p_pitches\<close> pitches thrown.
\<close>

record pitchingRow = row +
  p_outs :: int
  p_h :: int
  p_r :: int
  p_er :: int
  p_bb :: int
  p_hbp :: int
  p_so :: int
  p_win :: int
  p_loss :: int
  p_sv :: int
  p_s :: int
  p_pitches :: int

text \<open>The identity of the player of a row: \<^verbatim>\<open>row[playerId] || row[name]\<close>\<close>

definition playerKey :: "'a row_scheme \<Rightarrow> string" where
  "playerKey r = (if rPlayerId r \<noteq> [] then rPlayerId r else rName r)"

text \<open>The opponent of a row: the team batting first when the team batting second carries one
  of the two home-team aliases, and the team batting second otherwise.\<close>

definition opponentOf :: "'a row_scheme \<Rightarrow> string" where
  "opponentOf r =
     (let homeTeam = rKoukou r; awayTeam = rSenkou r;
          isHomeArinko = (strIncludes homeTeam arinko \<or> strIncludes homeTeam antos)
      in if isHomeArinko then awayTeam else homeTeam)"

section \<open>Filtering\<close>

record filters =
  startDate :: string
  endDate :: string
  teamKeyword :: string
  category :: string

text \<open>\<^verbatim>\<open><\<close> and \<^verbatim>\<open>>=\<close> on two dates compare their time values; with \<^verbatim>\<open>NaN\<close> both are false.\<close>

definition dateLess :: "jsdate \<Rightarrow> jsdate \<Rightarrow> bool" where
  "dateLess a b = (case (a, b) of (Some x, Some y) \<Rightarrow> x < y | _ \<Rightarrow> False)"

definition dateGeq :: "jsdate \<Rightarrow> jsdate \<Rightarrow> bool" where
  "dateGeq a b = (case (a, b) of (Some x, Some y) \<Rightarrow> y \<le> x | _ \<Rightarrow> False)"

text \<open>\<^verbatim>\<open>end = parseDate(endDate); end.setDate(end.getDate() + 1)\<close>\<close>

definition endOfRange :: "env \<Rightarrow> string \<Rightarrow> jsdate" where
  "endOfRange env s =
     (case parseDate env s of None \<Rightarrow> None | Some t \<Rightarrow> setDate env t (getDate env t + 1))"

text \<open>The date tests of the filter callback: \<^verbatim>\<open>if (start && rowDate < start) return false;
  if (end && rowDate >= end) return false;\<close>\<close>

definition datePredicate :: "env \<Rightarrow> filters \<Rightarrow> 'a row_scheme \<Rightarrow> bool" where
  "datePredicate env filtersToUse r =
     (let rowDate = parseDate env (rDate r);
          start = (if startDate filtersToUse \<noteq> [] then Some (parseDate env (startDate filtersToUse)) else None);
          end = (if endDate filtersToUse \<noteq> [] then Some (endOfRange env (endDate filtersToUse)) else None)
      in \<not> (case start of Some s \<Rightarrow> dateLess rowDate s | None \<Rightarrow> False)
         \<and> \<not> (case end of Some e \<Rightarrow> dateGeq rowDate e | None \<Rightarrow> False))"

definition keywordPredicate :: "env \<Rightarrow> filters \<Rightarrow> 'a row_scheme \<Rightarrow> bool" where
  "keywordPredicate env filtersToUse r =
     (if teamKeyword filtersToUse \<noteq> [] then
        (let kw = teamKeyword filtersToUse; teamA = rSenkou r; teamB = rKoukou r
         in case regexCompile env kw of
              Some test \<Rightarrow> test teamA \<or> test teamB
            | None \<Rightarrow>
                (let lowerKw = toLowerCase env kw
                 in strIncludes (toLowerCase env teamA) lowerKw \<or> strIncludes (toLowerCase env teamB) lowerKw))
      else True)"

definition categoryPredicate :: "filters \<Rightarrow> 'a row_scheme \<Rightarrow> bool" where
  "categoryPredicate filtersToUse r =
     (\<not> (category filtersToUse \<noteq> ''all'' \<and> rTitle r \<noteq> category filtersToUse))"

definition filterData :: "env \<Rightarrow> 'a row_scheme list \<Rightarrow> filters \<Rightarrow> 'a row_scheme list" where
  "filterData env data filtersToUse =
     filter (\<lambda>r. datePredicate env filtersToUse r \<and> keywordPredicate env filtersToUse r
                 \<and> categoryPredicate filtersToUse r) data"

section \<open>Aggregation\<close>

subsection \<open>Batting\<close>

record battingStats =
  bs_id :: string
  bs_name :: string
  bs_number :: string
  bs_games :: int
  bs_pa :: int
  bs_ab :: int
  bs_h :: int
  bs_doubles :: int
  bs_triples :: int
  bs_hr :: int
  bs_rbi :: int
  bs_runs :: int
  bs_so :: int
  bs_bb :: int
  bs_hbp :: int
  bs_sb :: int
  bs_sf :: int
  bs_sac :: int

record battingSummary = battingStats +
  bs_avg :: jsnum
  bs_obp :: jsnum
  bs_slg :: jsnum
  bs_ops :: jsnum
  bs_bbK :: jsnum
  bs_isoD :: jsnum

definition battingInit :: "battingRow \<Rightarrow> battingStats" where
  "battingInit r =
     \<lparr>bs_id = rPlayerId r, bs_name = rName r, bs_number = rNumber r,
      bs_games = 0, bs_pa = 0, bs_ab = 0, bs_h = 0, bs_doubles = 0, bs_triples = 0, bs_hr = 0,
      bs_rbi = 0, bs_runs = 0, bs_so = 0, bs_bb = 0, bs_hbp = 0, bs_sb = 0, bs_sf = 0, bs_sac = 0\<rparr>"

definition battingAdd :: "battingStats \<Rightarrow> battingRow \<Rightarrow> battingStats" where
  "battingAdd s r =
     s\<lparr>bs_games := bs_games s + 1,
       bs_pa := bs_pa s + b_pa r,
       bs_ab := bs_ab s + b_ab r,
       bs_h := bs_h s + b_h r,
       bs_doubles := bs_doubles s + b_doubles r,
       bs_triples := bs_triples s + b_triples r,
       bs_hr := bs_hr s + b_hr r,
       bs_rbi := bs_rbi s + b_rbi r,
       bs_runs := bs_runs s + b_runs r,
       bs_so := bs_so s + b_so r,
       bs_bb := bs_bb s + b_bb r,
       bs_hbp := bs_hbp s + b_hbp r,
       bs_sb := bs_sb s + b_sb r,
       bs_sf := bs_sf s + b_sf r,
       bs_sac := bs_sac s + b_sac r\<rparr>"

text \<open>One turn of \<^verbatim>\<open>filteredBattingData.forEach\<close> on the object \<^verbatim>\<open>stats\<close>.\<close>

definition battingStep :: "(string \<times> battingStats) list \<Rightarrow> battingRow \<Rightarrow> (string \<times> battingStats) list" where
  "battingStep stats r =
     (let id = playerKey r;
          s = (case lookup stats id of None \<Rightarrow> battingInit r | Some s \<Rightarrow> s)
      in assign stats id (battingAdd s r))"

text \<open>The callback of \<^verbatim>\<open>Object.values(stats).map\<close>.\<close>

definition battingSummaryOf :: "battingStats \<Rightarrow> battingSummary" where
  "battingSummaryOf s =
     (let avg = safeDiv (ofInt (bs_h s)) (ofInt (bs_ab s));
          obp = safeDiv (ofInt (bs_h s + bs_bb s + bs_hbp s)) (ofInt (bs_ab s + bs_bb s + bs_hbp s + bs_sf s));
          singles = bs_h s - bs_doubles s - bs_triples s - bs_hr s;
          totalBases = singles + (bs_doubles s * 2) + (bs_triples s * 3) + (bs_hr s * 4);
          slg = safeDiv (ofInt totalBases) (ofInt (bs_ab s));
          ops = jsadd obp slg;
          bbK = safeDiv (ofInt (bs_bb s + bs_hbp s)) (ofInt (bs_so s));
          isoD = jssub obp avg
      in battingStats.extend s
           (battingSummary.fields (toFixedNumber 3 avg) (toFixedNumber 3 obp) (toFixedNumber 3 slg)
              (toFixedNumber 3 ops) (toFixedNumber 2 bbK) (toFixedNumber 3 isoD)))"

definition aggregatedBatting :: "battingRow list \<Rightarrow> battingSummary list" where
  "aggregatedBatting filteredBattingData =
     sortBy (\<lambda>a b. isPositive (jssub (bs_avg b) (bs_avg a)))
       (map battingSummaryOf (objectValues (foldl battingStep [] filteredBattingData)))"

subsection \<open>Pitching\<close>

record pitchingStats =
  ps_id :: string
  ps_name :: string
  ps_number :: string
  ps_games :: int
  ps_outs :: int
  ps_h :: int
  ps_r :: int
  ps_er :: int
  ps_bb :: int
  ps_hbp :: int
  ps_so :: int
  ps_win :: int
  ps_loss :: int
  ps_sv :: int

record pitchingSummary = pitchingStats +
  ps_displayInnings :: string
  ps_era :: jsnum
  ps_whip :: jsnum
  ps_kbb :: jsnum
  ps_inningsVal :: jsnum

definition pitchingInit :: "pitchingRow \<Rightarrow> pitchingStats" where
  "pitchingInit r =
     \<lparr>ps_id = rPlayerId r, ps_name = rName r, ps_number = rNumber r,
      ps_games = 0, ps_outs = 0, ps_h = 0, ps_r = 0, ps_er = 0, ps_bb = 0, ps_hbp = 0, ps_so = 0,
      ps_win = 0, ps_loss = 0, ps_sv = 0\<rparr>"

definition pitchingAdd :: "pitchingStats \<Rightarrow> pitchingRow \<Rightarrow> pitchingStats" where
  "pitchingAdd s r =
     s\<lparr>ps_games := ps_games s + 1,
       ps_outs := ps_outs s + p_outs r,
       ps_h := ps_h s + p_h r,
       ps_r := ps_r s + p_r r,
       ps_er := ps_er s + p_er r,
       ps_bb := ps_bb s + p_bb r,
       ps_hbp := ps_hbp s + p_hbp r,
       ps_so := ps_so s + p_so r,
       ps_win := ps_win s + p_win r,
       ps_loss := ps_loss s + p_loss r,
       ps_sv := ps_sv s + p_sv r\<rparr>"

definition pitchingStep :: "(string \<times> pitchingStats) list \<Rightarrow> pitchingRow \<Rightarrow> (string \<times> pitchingStats) list" where
  "pitchingStep stats r =
     (let id = playerKey r;
          s = (case lookup stats id of None \<Rightarrow> pitchingInit r | Some s \<Rightarrow> s)
      in assign stats id (pitchingAdd s r))"

text \<open>\<^verbatim>\<open>a % b\<close> on integers: the remainder has the sign of the dividend.\<close>

definition jsRem :: "int \<Rightarrow> int \<Rightarrow> int" where
  "jsRem a b = sgn a * (\<bar>a\<bar> mod \<bar>b\<bar>)"

text \<open>\<^verbatim>\<open>`${Math.floor(x)}`\<close>: the integer part in decimal (for \<open>\<bar>x\<bar> < 10^21\<close>).\<close>

definition floorString :: "jsnum \<Rightarrow> string" where
  "floorString x =
     (case x of Num r \<Rightarrow> showInt \<lfloor>r\<rfloor> | PInf \<Rightarrow> ''Infinity'' | NInf \<Rightarrow> ''-Infinity'' | NaN \<Rightarrow> ''NaN'')"

definition pitchingSummaryOf :: "pitchingStats \<Rightarrow> pitchingSummary" where
  "pitchingSummaryOf s =
     (let displayInnings = floorString (jsdiv (ofInt (ps_outs s)) (ofInt 3))
            @ (if 0 < jsRem (ps_outs s) 3 then ''.'' @ showInt (jsRem (ps_outs s) 3) else []);
          era = safeDiv (ofInt (ps_er s * 7)) (jsdiv (ofInt (ps_outs s)) (ofInt 3));
          whip = safeDiv (ofInt (ps_bb s + ps_hbp s + ps_h s)) (jsdiv (ofInt (ps_outs s)) (ofInt 3));
          kbb = safeDiv (ofInt (ps_so s)) (ofInt (ps_bb s))
      in pitchingStats.extend s
           (pitchingSummary.fields displayInnings (toFixedNumber 2 era) (toFixedNumber 2 whip)
              (toFixedNumber 2 kbb) (jsdiv (ofInt (ps_outs s)) (ofInt 3))))"

definition aggregatedPitching :: "pitchingRow list \<Rightarrow> pitchingSummary list" where
  "aggregatedPitching filteredPitchingData =
     sortBy (\<lambda>a b. isPositive (jssub (ps_era a) (ps_era b)))
       (map pitchingSummaryOf (objectValues (foldl pitchingStep [] filteredPitchingData)))"

section \<open>Team trend\<close>

text \<open>
  \<open>getKey\<close> of \<^verbatim>\<open>teamTrendData\<close>; \<open>None\<close> is \<^verbatim>\<open>null\<close>. \<^verbatim>\<open>trendPeriod\<close> is one of
  \<^verbatim>\<open>'game'\<close>, \<^verbatim>\<open>'monthly'\<close>, \<^verbatim>\<open>'quarterly'\<close>; the \<^verbatim>\<open>switch\<close> sends everything else to the
  monthly case.
\<close>

definition teamGetKey :: "env \<Rightarrow> 'a row_scheme \<Rightarrow> string \<Rightarrow> string option" where
  "teamGetKey env r period =
     (case parseDate env (rDate r) of
        None \<Rightarrow> None
      | Some d \<Rightarrow>
          (let year = getFullYear env d; month = getMonth env d
           in if period = ''game'' then
                (let opponent = opponentOf r
                 in Some (rDate r @ '' vs '' @ (if opponent \<noteq> [] then opponent else fumei)))
              else if period = ''quarterly'' then
                (let quarter = month div 3 + 1 in Some (showInt year @ ''-Q'' @ showInt quarter))
              else Some (showInt year @ ''-'' @ padStart2 (showInt (month + 1)))))"

text \<open>A row is skipped when its key is \<^verbatim>\<open>null\<close> or the empty string: \<^verbatim>\<open>if (!key) return;\<close>\<close>

record battingPeriod =
  bp_periodKey :: string
  bp_ab :: int
  bp_h :: int
  bp_bb :: int
  bp_hbp :: int
  bp_sf :: int
  bp_runs :: int
  bp_doubles :: int
  bp_triples :: int
  bp_hr :: int
  bp_so :: int
  bp_sb :: int

record battingPeriodResult = battingPeriod +
  bp_avg :: jsnum
  bp_ops :: jsnum
  bp_bbRate :: jsnum
  bp_soRate :: jsnum

definition battingPeriodInit :: "string \<Rightarrow> battingPeriod" where
  "battingPeriodInit key =
     \<lparr>bp_periodKey = key, bp_ab = 0, bp_h = 0, bp_bb = 0, bp_hbp = 0, bp_sf = 0, bp_runs = 0,
      bp_doubles = 0, bp_triples = 0, bp_hr = 0, bp_so = 0, bp_sb = 0\<rparr>"

definition battingPeriodAdd :: "battingPeriod \<Rightarrow> battingRow \<Rightarrow> battingPeriod" where
  "battingPeriodAdd p r =
     p\<lparr>bp_ab := bp_ab p + b_ab r,
       bp_h := bp_h p + b_h r,
       bp_runs := bp_runs p + b_runs r,
       bp_bb := bp_bb p + b_bb r,
       bp_hbp := bp_hbp p + b_hbp r,
       bp_sf := bp_sf p + b_sf r,
       bp_doubles := bp_doubles p + b_doubles r,
       bp_triples := bp_triples p + b_triples r,
       bp_hr := bp_hr p + b_hr r,
       bp_so := bp_so p + b_so r,
       bp_sb := bp_sb p + b_sb r\<rparr>"

definition battingPeriodStep ::
  "env \<Rightarrow> string \<Rightarrow> (string \<times> battingPeriod) list \<Rightarrow> battingRow \<Rightarrow> (string \<times> battingPeriod) list" where
  "battingPeriodStep env trendPeriod battingPeriods r =
     (case teamGetKey env r trendPeriod of
        None \<Rightarrow> battingPeriods
      | Some key \<Rightarrow>
          if key = [] then battingPeriods
          else (let p = (case lookup battingPeriods key of None \<Rightarrow> battingPeriodInit key | Some p \<Rightarrow> p)
                in assign battingPeriods key (battingPeriodAdd p r)))"

definition battingPeriodResultOf :: "battingPeriod \<Rightarrow> battingPeriodResult" where
  "battingPeriodResultOf m =
     (let avg = safeDiv (ofInt (bp_h m)) (ofInt (bp_ab m));
          obp = safeDiv (ofInt (bp_h m + bp_bb m + bp_hbp m)) (ofInt (bp_ab m + bp_bb m + bp_hbp m + bp_sf m));
          slg = safeDiv (ofInt ((bp_h m - bp_doubles m - bp_triples m - bp_hr m)
                                 + bp_doubles m * 2 + bp_triples m * 3 + bp_hr m * 4)) (ofInt (bp_ab m));
          pa = bp_ab m + bp_bb m + bp_hbp m + bp_sf m;
          bbRate = jsmul (safeDiv (ofInt (bp_bb m + bp_hbp m)) (ofInt pa)) (Num 100);
          soRate = jsmul (safeDiv (ofInt (bp_so m)) (ofInt pa)) (Num 100)
      in battingPeriod.extend m
           (battingPeriodResult.fields (toFixedNumber 3 avg) (toFixedNumber 3 (jsadd obp slg))
              (toFixedNumber 1 bbRate) (toFixedNumber 1 soRate)))"

text \<open>The \<^verbatim>\<open>batting\<close> member of \<^verbatim>\<open>teamTrendData\<close>.\<close>

definition teamTrendBatting :: "env \<Rightarrow> battingRow list \<Rightarrow> string \<Rightarrow> battingPeriodResult list" where
  "teamTrendBatting env filteredBattingData trendPeriod =
     map battingPeriodResultOf
       (sortBy (\<lambda>a b. 0 < localeCompare env (bp_periodKey a) (bp_periodKey b))
          (objectValues (foldl (battingPeriodStep env trendPeriod) [] filteredBattingData)))"

record pitchingPeriod =
  pp_periodKey :: string
  pp_outs :: int
  pp_er :: int
  pp_h :: int
  pp_bb :: int
  pp_hbp :: int
  pp_so :: int
  pp_s :: int
  pp_pitches :: int

record pitchingPeriodResult = pitchingPeriod +
  pp_bbhbp :: int
  pp_era :: jsnum
  pp_whip :: jsnum
  pp_kPer7 :: jsnum
  pp_bbPer7 :: jsnum
  pp_strikeRate :: jsnum

definition pitchingPeriodInit :: "string \<Rightarrow> pitchingPeriod" where
  "pitchingPeriodInit key =
     \<lparr>pp_periodKey = key, pp_outs = 0, pp_er = 0, pp_h = 0, pp_bb = 0, pp_hbp = 0, pp_so = 0,
      pp_s = 0, pp_pitches = 0\<rparr>"

definition pitchingPeriodAdd :: "pitchingPeriod \<Rightarrow> pitchingRow \<Rightarrow> pitchingPeriod" where
  "pitchingPeriodAdd p r =
     p\<lparr>pp_outs := pp_outs p + p_outs r,
       pp_er := pp_er p + p_er r,
       pp_h := pp_h p + p_h r,
       pp_bb := pp_bb p + p_bb r,
       pp_hbp := pp_hbp p + p_hbp r,
       pp_so := pp_so p + p_so r,
       pp_s := pp_s p + p_s r,
       pp_pitches := pp_pitches p + p_pitches r\<rparr>"

definition pitchingPeriodStep ::
  "env \<Rightarrow> string \<Rightarrow> (string \<times> pitchingPeriod) list \<Rightarrow> pitchingRow \<Rightarrow> (string \<times> pitchingPeriod) list" where
  "pitchingPeriodStep env trendPeriod pitchingPeriods r =
     (case teamGetKey env r trendPeriod of
        None \<Rightarrow> pitchingPeriods
      | Some key \<Rightarrow>
          if key = [] then pitchingPeriods
          else (let p = (case lookup pitchingPeriods key of None \<Rightarrow> pitchingPeriodInit key | Some p \<Rightarrow> p)
                in assign pitchingPeriods key (pitchingPeriodAdd p r)))"

definition pitchingPeriodResultOf :: "pitchingPeriod \<Rightarrow> pitchingPeriodResult" where
  "pitchingPeriodResultOf m =
     (let innings = jsdiv (ofInt (pp_outs m)) (ofInt 3);
          era = safeDiv (ofInt (pp_er m * 7)) innings;
          whip = safeDiv (ofInt (pp_h m + pp_bb m + pp_hbp m)) innings;
          kPer7 = safeDiv (ofInt (pp_so m * 7)) innings;
          bbPer7 = safeDiv (ofInt ((pp_bb m + pp_hbp m) * 7)) innings;
          strikeRate = jsmul (safeDiv (ofInt (pp_s m)) (ofInt (pp_pitches m))) (Num 100)
      in pitchingPeriod.extend m
           (pitchingPeriodResult.fields (pp_bb m + pp_hbp m) (toFixedNumber 2 era) (toFixedNumber 2 whip)
              (toFixedNumber 2 kPer7) (toFixedNumber 2 bbPer7) (toFixedNumber 1 strikeRate)))"

text \<open>The \<^verbatim>\<open>pitching\<close> member of \<^verbatim>\<open>teamTrendData\<close>.\<close>

definition teamTrendPitching :: "env \<Rightarrow> pitchingRow list \<Rightarrow> string \<Rightarrow> pitchingPeriodResult list" where
  "teamTrendPitching env filteredPitchingData trendPeriod =
     map pitchingPeriodResultOf
       (sortBy (\<lambda>a b. 0 < localeCompare env (pp_periodKey a) (pp_periodKey b))
          (objectValues (foldl (pitchingPeriodStep env trendPeriod) [] filteredPitchingData)))"

section \<open>Game outcomes\<close>

record game =
  g_id :: string
  g_date :: string
  g_opponent :: string
  g_scoreText :: string
  g_runsScored :: int
  g_runsAllowed :: int

record gameResult = game +
  g_result :: string
  g_winningPercentage :: jsnum
  g_label :: string

text \<open>
  \<^verbatim>\<open>gamesMap\<close> is a \<^verbatim>\<open>Map\<close>: an association list in insertion order, which is also the order
  of \<^verbatim>\<open>gamesMap.values()\<close>. First pass, one batting row.
\<close>

definition gameBattingStep :: "(string \<times> game) list \<Rightarrow> battingRow \<Rightarrow> (string \<times> game) list" where
  "gameBattingStep gamesMap r =
     (let gameId = rGameId r
      in if gameId = [] then gamesMap
         else (let game = (case lookup gamesMap gameId of
                             None \<Rightarrow>
                               (let opponent = opponentOf r
                                in \<lparr>g_id = gameId, g_date = rDate r,
                                    g_opponent = (if opponent \<noteq> [] then opponent else fumei),
                                    g_scoreText = rScore r, g_runsScored = 0, g_runsAllowed = 0\<rparr>)
                           | Some g \<Rightarrow> g)
               in assign gamesMap gameId (game\<lparr>g_runsScored := g_runsScored game + b_runs r\<rparr>)))"

text \<open>Second pass, one pitching row.\<close>

definition gamePitchingStep :: "(string \<times> game) list \<Rightarrow> pitchingRow \<Rightarrow> (string \<times> game) list" where
  "gamePitchingStep gamesMap r =
     (let gameId = rGameId r
      in case lookup gamesMap gameId of
           Some g \<Rightarrow> assign gamesMap gameId (g\<lparr>g_runsAllowed := g_runsAllowed g + p_r r\<rparr>)
         | None \<Rightarrow> gamesMap)"

text \<open>The comparator \<^verbatim>\<open>parseDate(a.date) - parseDate(b.date)\<close> is positive.\<close>

definition dateAfter :: "env \<Rightarrow> string \<Rightarrow> string \<Rightarrow> bool" where
  "dateAfter env a b =
     (case (parseDate env a, parseDate env b) of (Some x, Some y) \<Rightarrow> 0 < x - y | _ \<Rightarrow> False)"

text \<open>\<^verbatim>\<open>s.replace('-', '/')\<close>: the first \<^verbatim>\<open>-\<close> only.\<close>

fun replaceFirstDash :: "string \<Rightarrow> string" where
  "replaceFirstDash [] = []"
| "replaceFirstDash (c # cs) = (if c = CHR ''-'' then CHR ''/'' # cs else c # replaceFirstDash cs)"

text \<open>The final \<^verbatim>\<open>sortedGames.map\<close>, with its two counters \<^verbatim>\<open>wins\<close> and \<^verbatim>\<open>gamesPlayed\<close>.\<close>

fun gameResults :: "int \<Rightarrow> int \<Rightarrow> game list \<Rightarrow> gameResult list" where
  "gameResults wins gamesPlayed [] = []"
| "gameResults wins gamesPlayed (game # rest) =
     (let result = (if g_runsScored game > g_runsAllowed game then ''W''
                    else if g_runsScored game < g_runsAllowed game then ''L''
                    else ''T'');
          gamesPlayed' = gamesPlayed + 1;
          wins' = (if result = ''W'' then wins + 1 else wins);
          winningPercentage = safeDiv (ofInt wins') (ofInt gamesPlayed')
      in game.extend game
           (gameResult.fields result (toFixedNumber 3 winningPercentage)
              (replaceFirstDash (drop 5 (g_date game)) @ '' vs '' @ g_opponent game))
         # gameResults wins' gamesPlayed' rest)"

definition gameByGameStats :: "env \<Rightarrow> battingRow list \<Rightarrow> pitchingRow list \<Rightarrow> gameResult list" where
  "gameByGameStats env filteredBattingData filteredPitchingData =
     (if length filteredBattingData = 0 then []
      else let gamesMap = foldl gamePitchingStep (foldl gameBattingStep [] filteredBattingData)
                            filteredPitchingData;
               sortedGames = sortBy (\<lambda>a b. dateAfter env (g_date a) (g_date b)) (map snd gamesMap)
           in gameResults 0 0 sortedGames)"

section \<open>Player trends\<close>

text \<open>\<open>getKey\<close> of the two player trends: the period \<^verbatim>\<open>'game'\<close> is keyed by the date string.\<close>

definition playerGetKey :: "env \<Rightarrow> 'a row_scheme \<Rightarrow> string \<Rightarrow> string option" where
  "playerGetKey env r period =
     (case parseDate env (rDate r) of
        None \<Rightarrow> None
      | Some d \<Rightarrow>
          (let year = getFullYear env d; month = getMonth env d
           in if period = ''game'' then Some (rDate r)
              else if period = ''quarterly'' then
                (let quarter = month div 3 + 1 in Some (showInt year @ ''-Q'' @ showInt quarter))
              else Some (showInt year @ ''-'' @ padStart2 (showInt (month + 1)))))"

text \<open>One turn of \<^verbatim>\<open>rows.forEach\<close> on the object \<^verbatim>\<open>grouped\<close>.\<close>

definition groupStep ::
  "env \<Rightarrow> string \<Rightarrow> (string \<times> ('a row_scheme) list) list \<Rightarrow> 'a row_scheme \<Rightarrow> (string \<times> ('a row_scheme) list) list" where
  "groupStep env trendPeriod grouped r =
     (case playerGetKey env r trendPeriod of
        None \<Rightarrow> grouped
      | Some key \<Rightarrow>
          if key = [] then grouped
          else assign grouped key ((case lookup grouped key of None \<Rightarrow> [] | Some rs \<Rightarrow> rs) @ [r]))"

definition groupedRows ::
  "env \<Rightarrow> string \<Rightarrow> string \<Rightarrow> ('a row_scheme) list \<Rightarrow> (string \<times> ('a row_scheme) list) list" where
  "groupedRows env selectedPlayerId trendPeriod filteredData =
     foldl (groupStep env trendPeriod) [] (filter (\<lambda>r. playerKey r = selectedPlayerId) filteredData)"

text \<open>\<^verbatim>\<open>Object.keys(grouped).sort()\<close>: strings in the order of their code units.\<close>

definition sortedKeys :: "(string \<times> 'v) list \<Rightarrow> string list" where
  "sortedKeys grouped = sort (objectKeys grouped)"

text \<open>\<^verbatim>\<open>grouped[key]\<close>\<close>

definition periodRowsOf :: "(string \<times> 'v list) list \<Rightarrow> string \<Rightarrow> 'v list" where
  "periodRowsOf grouped key = (case lookup grouped key of None \<Rightarrow> [] | Some rs \<Rightarrow> rs)"

text \<open>The opponent shown for a bucket: only for the period \<^verbatim>\<open>'game'\<close>, from the first row.\<close>

definition bucketOpponent :: "string \<Rightarrow> ('a row_scheme) list \<Rightarrow> string" where
  "bucketOpponent trendPeriod periodRows =
     (if trendPeriod = ''game'' \<and> 0 < length periodRows then opponentOf (periodRows ! 0) else [])"

subsection \<open>Batting\<close>

text \<open>\<^verbatim>\<open>periodStats\<close> has ten counters; \<^verbatim>\<open>cumulative\<close> has \<^verbatim>\<open>sb\<close> as well, which stays 0.\<close>

record battingTotals =
  t_ab :: int
  t_h :: int
  t_bb :: int
  t_hbp :: int
  t_sf :: int
  t_doubles :: int
  t_triples :: int
  t_hr :: int
  t_rbi :: int
  t_so :: int

record battingCumulative = battingTotals +
  t_sb :: int

record playerBattingBucket = battingTotals +
  pb_periodKey :: string
  pb_opponent :: string
  pb_avg :: jsnum
  pb_ops :: jsnum
  pb_slg :: jsnum
  pb_obp :: jsnum
  pb_bbRate :: jsnum
  pb_soRate :: jsnum

definition battingTotalsZero :: battingTotals where
  "battingTotalsZero =
     \<lparr>t_ab = 0, t_h = 0, t_bb = 0, t_hbp = 0, t_sf = 0, t_doubles = 0, t_triples = 0, t_hr = 0,
      t_rbi = 0, t_so = 0\<rparr>"

text \<open>The reducer of \<^verbatim>\<open>periodRows.reduce\<close>.\<close>

definition battingTotalsAdd :: "battingTotals \<Rightarrow> battingRow \<Rightarrow> battingTotals" where
  "battingTotalsAdd acc r =
     acc\<lparr>t_ab := t_ab acc + b_ab r,
         t_h := t_h acc + b_h r,
         t_bb := t_bb acc + b_bb r,
         t_hbp := t_hbp acc + b_hbp r,
         t_sf := t_sf acc + b_sf r,
         t_doubles := t_doubles acc + b_doubles r,
         t_triples := t_triples acc + b_triples r,
         t_hr := t_hr acc + b_hr r,
         t_so := t_so acc + b_so r,
         t_rbi := t_rbi acc + b_rbi r\<rparr>"

text \<open>\<^verbatim>\<open>Object.keys(periodStats).forEach(statKey => cumulative[statKey] += periodStats[statKey])\<close>\<close>

definition battingCumulate :: "battingCumulative \<Rightarrow> battingTotals \<Rightarrow> battingCumulative" where
  "battingCumulate cumulative periodStats =
     cumulative\<lparr>t_ab := t_ab cumulative + t_ab periodStats,
                t_h := t_h cumulative + t_h periodStats,
                t_bb := t_bb cumulative + t_bb periodStats,
                t_hbp := t_hbp cumulative + t_hbp periodStats,
                t_sf := t_sf cumulative + t_sf periodStats,
                t_doubles := t_doubles cumulative + t_doubles periodStats,
                t_triples := t_triples cumulative + t_triples periodStats,
                t_hr := t_hr cumulative + t_hr periodStats,
                t_rbi := t_rbi cumulative + t_rbi periodStats,
                t_so := t_so cumulative + t_so periodStats\<rparr>"

text \<open>The callback of \<^verbatim>\<open>sortedKeys.map\<close>, threading \<^verbatim>\<open>cumulative\<close> through the keys.\<close>

fun battingTrendBuckets ::
  "string \<Rightarrow> (string \<times> battingRow list) list \<Rightarrow> battingCumulative \<Rightarrow> string list \<Rightarrow> playerBattingBucket list" where
  "battingTrendBuckets trendPeriod grouped cumulative [] = []"
| "battingTrendBuckets trendPeriod grouped cumulative (key # keys) =
     (let periodRows = periodRowsOf grouped key;
          periodStats = foldl battingTotalsAdd battingTotalsZero periodRows;
          cumulative = battingCumulate cumulative periodStats;
          avg = safeDiv (ofInt (t_h cumulative)) (ofInt (t_ab cumulative));
          obp = safeDiv (ofInt (t_h cumulative + t_bb cumulative + t_hbp cumulative))
                  (ofInt (t_ab cumulative + t_bb cumulative + t_hbp cumulative + t_sf cumulative));
          singles = t_h cumulative - t_doubles cumulative - t_triples cumulative - t_hr cumulative;
          tb = singles + t_doubles cumulative * 2 + t_triples cumulative * 3 + t_hr cumulative * 4;
          pa = t_ab cumulative + t_bb cumulative + t_hbp cumulative + t_sf cumulative;
          soRate = jsmul (safeDiv (ofInt (t_so cumulative)) (ofInt pa)) (Num 100);
          bbRate = jsmul (safeDiv (ofInt (t_bb cumulative + t_hbp cumulative)) (ofInt pa)) (Num 100);
          slg = safeDiv (ofInt tb) (ofInt (t_ab cumulative));
          opponent = bucketOpponent trendPeriod periodRows
      in battingTotals.extend periodStats
           (playerBattingBucket.fields key opponent (toFixedNumber 3 avg) (toFixedNumber 3 (jsadd obp slg))
              (toFixedNumber 3 slg) (toFixedNumber 3 obp) (toFixedNumber 1 bbRate) (toFixedNumber 1 soRate))
         # battingTrendBuckets trendPeriod grouped cumulative keys)"

definition battingCumulativeZero :: battingCumulative where
  "battingCumulativeZero =
     \<lparr>t_ab = 0, t_h = 0, t_bb = 0, t_hbp = 0, t_sf = 0, t_doubles = 0, t_triples = 0, t_hr = 0,
      t_rbi = 0, t_so = 0, t_sb = 0\<rparr>"

definition playerBattingTrendData ::
  "env \<Rightarrow> battingRow list \<Rightarrow> string \<Rightarrow> string \<Rightarrow> string \<Rightarrow> string \<Rightarrow> playerBattingBucket list" where
  "playerBattingTrendData env filteredBattingData selectedPlayerId trendTarget trendType trendPeriod =
     (if selectedPlayerId = [] \<or> trendTarget \<noteq> ''player'' \<or> trendType \<noteq> ''batting'' then []
      else let grouped = groupedRows env selectedPlayerId trendPeriod filteredBattingData
           in battingTrendBuckets trendPeriod grouped battingCumulativeZero (sortedKeys grouped))"

subsection \<open>Pitching\<close>

text \<open>\<^verbatim>\<open>cumulative\<close> has six counters; \<^verbatim>\<open>periodStats\<close> has \<^verbatim>\<open>pitches\<close> and \<^verbatim>\<open>strikes\<close> as well.\<close>

record pitchingTotals =
  q_outs :: int
  q_er :: int
  q_bb :: int
  q_hbp :: int
  q_h :: int
  q_so :: int

record pitchingPeriodStats = pitchingTotals +
  q_pitches :: int
  q_strikes :: int

record playerPitchingBucket =
  pt_periodKey :: string
  pt_opponent :: string
  pt_era :: jsnum
  pt_whip :: jsnum
  pt_kbb :: jsnum
  pt_innings :: jsnum
  pt_kPer7 :: jsnum
  pt_bbPer7 :: jsnum
  pt_strikeRate :: jsnum
  pt_bb :: int
  pt_hbp :: int
  pt_pitches :: int

definition pitchingPeriodStatsZero :: pitchingPeriodStats where
  "pitchingPeriodStatsZero =
     \<lparr>q_outs = 0, q_er = 0, q_bb = 0, q_hbp = 0, q_h = 0, q_so = 0, q_pitches = 0, q_strikes = 0\<rparr>"

definition pitchingTotalsZero :: pitchingTotals where
  "pitchingTotalsZero = \<lparr>q_outs = 0, q_er = 0, q_bb = 0, q_hbp = 0, q_h = 0, q_so = 0\<rparr>"

definition pitchingPeriodStatsAdd :: "pitchingPeriodStats \<Rightarrow> pitchingRow \<Rightarrow> pitchingPeriodStats" where
  "pitchingPeriodStatsAdd acc r =
     acc\<lparr>q_outs := q_outs acc + p_outs r,
         q_er := q_er acc + p_er r,
         q_bb := q_bb acc + p_bb r,
         q_hbp := q_hbp acc + p_hbp r,
         q_h := q_h acc + p_h r,
         q_so := q_so acc + p_so r,
         q_pitches := q_pitches acc + p_pitches r,
         q_strikes := q_strikes acc + p_s r\<rparr>"

text \<open>\<^verbatim>\<open>Object.keys(cumulative).forEach(statKey => cumulative[statKey] += periodStats[statKey])\<close>\<close>

definition pitchingCumulate :: "pitchingTotals \<Rightarrow> pitchingPeriodStats \<Rightarrow> pitchingTotals" where
  "pitchingCumulate cumulative periodStats =
     cumulative\<lparr>q_outs := q_outs cumulative + q_outs periodStats,
                q_er := q_er cumulative + q_er periodStats,
                q_bb := q_bb cumulative + q_bb periodStats,
                q_hbp := q_hbp cumulative + q_hbp periodStats,
                q_h := q_h cumulative + q_h periodStats,
                q_so := q_so cumulative + q_so periodStats\<rparr>"

fun pitchingTrendBuckets ::
  "string \<Rightarrow> (string \<times> pitchingRow list) list \<Rightarrow> pitchingTotals \<Rightarrow> string list \<Rightarrow> playerPitchingBucket list" where
  "pitchingTrendBuckets trendPeriod grouped cumulative [] = []"
| "pitchingTrendBuckets trendPeriod grouped cumulative (key # keys) =
     (let periodRows = periodRowsOf grouped key;
          periodStats = foldl pitchingPeriodStatsAdd pitchingPeriodStatsZero periodRows;
          cumulative = pitchingCumulate cumulative periodStats;
          era = safeDiv (ofInt (q_er cumulative * 7)) (jsdiv (ofInt (q_outs cumulative)) (ofInt 3));
          whip = safeDiv (ofInt (q_bb cumulative + q_hbp cumulative + q_h cumulative))
                   (jsdiv (ofInt (q_outs cumulative)) (ofInt 3));
          kbb = safeDiv (ofInt (q_so cumulative)) (ofInt (q_bb cumulative));
          kPer7 = safeDiv (ofInt (q_so cumulative * 7)) (jsdiv (ofInt (q_outs cumulative)) (ofInt 3));
          bbPer7 = safeDiv (ofInt ((q_bb cumulative + q_hbp cumulative) * 7))
                     (jsdiv (ofInt (q_outs cumulative)) (ofInt 3));
          innings = jsdiv (ofInt (q_outs periodStats)) (ofInt 3);
          strikeRate = jsmul (safeDiv (ofInt (q_strikes periodStats)) (ofInt (q_pitches periodStats))) (Num 100);
          opponent = bucketOpponent trendPeriod periodRows
      in \<lparr>pt_periodKey = key, pt_opponent = opponent,
          pt_era = toFixedNumber 2 era, pt_whip = toFixedNumber 2 whip, pt_kbb = toFixedNumber 2 kbb,
          pt_innings = toFixedNumber 1 innings,
          pt_kPer7 = toFixedNumber 2 kPer7, pt_bbPer7 = toFixedNumber 2 bbPer7,
          pt_strikeRate = toFixedNumber 1 strikeRate,
          pt_bb = q_bb periodStats, pt_hbp = q_hbp periodStats, pt_pitches = q_pitches periodStats\<rparr>
         # pitchingTrendBuckets trendPeriod grouped cumulative keys)"

definition playerPitchingTrendData ::
  "env \<Rightarrow> pitchingRow list \<Rightarrow> string \<Rightarrow> string \<Rightarrow> string \<Rightarrow> string \<Rightarrow> playerPitchingBucket list" where
  "playerPitchingTrendData env filteredPitchingData selectedPlayerId trendTarget trendType trendPeriod =
     (if selectedPlayerId = [] \<or> trendTarget \<noteq> ''player'' \<or> trendType \<noteq> ''pitching'' then []
      else let grouped = groupedRows env selectedPlayerId trendPeriod filteredPitchingData
           in pitchingTrendBuckets trendPeriod grouped pitchingTotalsZero (sortedKeys grouped))"

section \<open>Ranking\<close>



















section \<open>Example inputs\<close>

text \<open>
  A host in Japan (UTC+9) whose \<^verbatim>\<open>Date.parse\<close> and \<^verbatim>\<open>RegExp\<close> accept nothing, with strings
  compared by code units.
\<close>

definition exampleEnv :: env where
  "exampleEnv =
     \<lparr>tzOffset = 32400000, dateParse = (\<lambda>s. None), regexCompile = (\<lambda>kw. None),
      toLowerCase = (\<lambda>s. s),
      localeCompare = (\<lambda>a b. if a < b then - 1 else if a = b then 0 else 1),
      stringToNumber = (\<lambda>s. NaN)\<rparr>"

text \<open>A batting row of a player in a game on a date, with at-bats, hits and runs; a pitching
  row with outs, earned runs and runs allowed. Everything else is empty or 0.\<close>

definition mkBattingRow :: "string \<Rightarrow> string \<Rightarrow> string \<Rightarrow> int \<Rightarrow> int \<Rightarrow> int \<Rightarrow> battingRow" where
  "mkBattingRow pid gid date' ab h runs =
     \<lparr>rPlayerId = pid, rName = pid, rNumber = [], rGameId = gid, rDate = date', rTitle = [],
      rSenkou = [], rKoukou = [], rScore = [],
      b_pa = ab, b_ab = ab, b_h = h, b_doubles = 0, b_triples = 0, b_hr = 0, b_rbi = 0,
      b_runs = runs, b_so = 0, b_bb = 0, b_hbp = 0, b_sb = 0, b_sf = 0, b_sac = 0\<rparr>"

definition mkPitchingRow :: "string \<Rightarrow> string \<Rightarrow> string \<Rightarrow> int \<Rightarrow> int \<Rightarrow> int \<Rightarrow> pitchingRow" where
  "mkPitchingRow pid gid date' outs er r =
     \<lparr>rPlayerId = pid, rName = pid, rNumber = [], rGameId = gid, rDate = date', rTitle = [],
      rSenkou = [], rKoukou = [], rScore = [],
      p_outs = outs, p_h = 0, p_r = r, p_er = er, p_bb = 0, p_hbp = 0, p_so = 0, p_win = 0,
      p_loss = 0, p_sv = 0, p_s = 0, p_pitches = 0\<rparr>"

text \<open>One hit, a single, in three at-bats.\<close>

definition oneForThree :: battingSummary where
  "oneForThree = hd (aggregatedBatting [mkBattingRow ''7'' ''g1'' ''2025-10-01'' 3 1 0])"

text \<open>Seven earned runs in three innings; no earned run in four outs.\<close>

definition sevenInThree :: pitchingSummary where
  "sevenInThree = hd (aggregatedPitching [mkPitchingRow ''7'' ''g1'' ''2025-10-01'' 9 7 7])"

definition noneInFourOuts :: pitchingSummary where
  "noneInFourOuts = hd (aggregatedPitching [mkPitchingRow ''8'' ''g1'' ''2025-10-01'' 4 0 0])"




text \<open>A row whose date is no date.\<close>

definition undatedRow :: battingRow where
  "undatedRow = mkBattingRow ''7'' ''g1'' ''abc'' 4 2 1"

section \<open>Notions of the specification\<close>

text \<open>
  The sum of the per-period values \<open>f\<close> of the periods 1 through \<open>k\<close> of a trend; the buckets
  of a trend are counted from 0, so these are the first \<open>k + 1\<close> buckets.
\<close>

definition throughPeriod :: "('b \<Rightarrow> int) \<Rightarrow> 'b list \<Rightarrow> nat \<Rightarrow> int" where
  "throughPeriod f bs k = sum_list (map f (take (Suc k) bs))"

text \<open>A player's rows of October and of November 2025: four at-bats, then two.\<close>

definition twoMonths :: "battingRow list" where
  "twoMonths = [mkBattingRow ''7'' ''g1'' ''2025-10-01'' 4 1 0, mkBattingRow ''7'' ''g2'' ''2025-11-08'' 2 1 0]"

definition twoMonthsTrend :: "playerBattingBucket list" where
  "twoMonthsTrend = playerBattingTrendData exampleEnv twoMonths ''7'' ''player'' ''batting'' ''monthly''"

text \<open>The total of a column over some rows, and the rows of the periods 1 through \<open>k\<close> of a
  trend with the period keys \<open>keys\<close> (counted from 0).\<close>

definition total :: "('r \<Rightarrow> int) \<Rightarrow> 'r list \<Rightarrow> int" where
  "total f rs = sum_list (map f rs)"

definition rowsThrough :: "(string \<times> 'r list) list \<Rightarrow> string list \<Rightarrow> nat \<Rightarrow> 'r list" where
  "rowsThrough grouped keys k = concat (map (periodRowsOf grouped) (take (Suc k) keys))"

text \<open>A pitcher's rows of October and of November 2025: 9 outs with 2 earned runs, then
  3 outs with 3 earned runs.\<close>

definition twoPitchingMonths :: "pitchingRow list" where
  "twoPitchingMonths =
     [mkPitchingRow ''7'' ''g1'' ''2025-10-01'' 9 2 2, mkPitchingRow ''7'' ''g2'' ''2025-11-08'' 3 3 3]"

definition twoPitchingMonthsTrend :: "playerPitchingBucket list" where
  "twoPitchingMonthsTrend =
     playerPitchingTrendData exampleEnv twoPitchingMonths ''7'' ''player'' ''pitching'' ''monthly''"

text \<open>The time value of a date string as \<open>parseDate\<close> reads it, and the number of wins among
  the games 1 through \<open>k\<close> of an outcome series (counted from 0).\<close>

definition parsedTime :: "env \<Rightarrow> string \<Rightarrow> int" where
  "parsedTime env s = (case parseDate env s of Some t \<Rightarrow> t | None \<Rightarrow> 0)"

definition winsThrough :: "gameResult list \<Rightarrow> nat \<Rightarrow> int" where
  "winsThrough res k = int (length (filter (\<lambda>x. g_result x = ''W'') (take (Suc k) res)))"

text \<open>Two games: in the first the team scores 3 + 2 = 5 runs and allows 2, in the second,
  a week later, it scores 3 and allows 4.\<close>

definition scenarioBatting :: "battingRow list" where
  "scenarioBatting =
     [mkBattingRow ''1'' ''game1'' ''2025-10-01'' 4 2 3, mkBattingRow ''2'' ''game1'' ''2025-10-01'' 4 1 2,
      mkBattingRow ''1'' ''game2'' ''2025-10-08'' 4 1 3]"

definition scenarioPitching :: "pitchingRow list" where
  "scenarioPitching =
     [mkPitchingRow ''9'' ''game1'' ''2025-10-01'' 21 2 2, mkPitchingRow ''9'' ''game2'' ''2025-10-08'' 21 4 4]"

text \<open>The same two games, where nobody's pitching row of the second game is left.\<close>

definition firstGamePitching :: "pitchingRow list" where
  "firstGamePitching = [mkPitchingRow ''9'' ''game1'' ''2025-10-01'' 21 2 2]"

definition scenarioOutcomes :: "gameResult list" where
  "scenarioOutcomes = gameByGameStats exampleEnv scenarioBatting scenarioPitching"

text \<open>
  A rational is a double when rounding leaves it as it is. A value can be ranked when it is
  missing, an infinity, or a double: these are the values whose differences the comparators
  read consistently. The number a value is ranked by is the value itself, or the given
  default when the value is missing; a list of values is ascending, or descending, when
  these numbers are, with the default \<open>+\<infinity>\<close>, or \<open>-\<infinity>\<close>.
\<close>

definition isDouble :: "rat \<Rightarrow> bool" where
  "isDouble r = (fl r = Num r)"







definition fiveHomers :: battingRow where
  "fiveHomers = (mkBattingRow ''a'' ''g1'' ''2025-10-01'' 20 5 5)\<lparr>b_hr := 5\<rparr>"

definition tenHomers :: battingRow where
  "tenHomers = (mkBattingRow ''b'' ''g1'' ''2025-10-01'' 40 10 10)\<lparr>b_hr := 10\<rparr>"



text \<open>
  A counting total is safe when it is at most \<open>2^53\<close> in absolute value, the range in which
  a double holds every integer exactly.
\<close>

definition safeCount :: "int \<Rightarrow> bool" where
  "safeCount n = (\<bar>n\<bar> \<le> 2 ^ 53)"

text \<open>A batting row without an at-bat, and the summary of a player with this row only.\<close>

definition hitless :: battingRow where
  "hitless = mkBattingRow ''7'' ''g1'' ''2025-10-01'' 0 0 0"

definition noAtBats :: battingSummary where
  "noAtBats = hd (aggregatedBatting [hitless])"

section \<open>Properties\<close>

subsection \<open>Evaluating numbers\<close>

lemma bitlen_numeral_simps:
  "bitlen (numeral (Num.Bit0 n)) = bitlen (numeral n) + 1"
  "bitlen (numeral (Num.Bit1 n)) = bitlen (numeral n) + 1"
  "bitlen 1 = 1"
  by (subst compute_bitlen, simp)+

lemma floor_rat_numeral_simps:
  "\<lfloor>numeral a / numeral b :: rat\<rfloor> = numeral a div numeral b"
  "\<lfloor>- (numeral a / numeral b) :: rat\<rfloor> = - numeral a div numeral b"
  "\<lfloor>1 / numeral b :: rat\<rfloor> = 1 div numeral b"
  "\<lceil>numeral a / numeral b :: rat\<rceil> = - (- numeral a div numeral b)"
  "\<lceil>1 / numeral b :: rat\<rceil> = - (- 1 div numeral b)"
proof -
  show "\<lfloor>numeral a / numeral b :: rat\<rfloor> = numeral a div numeral b"
    by (metis floor_divide_of_int_eq of_int_numeral)
  show "\<lfloor>- (numeral a / numeral b) :: rat\<rfloor> = - numeral a div numeral b"
    by (metis divide_minus_left floor_divide_of_int_eq of_int_neg_numeral of_int_numeral)
  show "\<lfloor>1 / numeral b :: rat\<rfloor> = 1 div numeral b"
    by (metis floor_divide_of_int_eq of_int_1 of_int_numeral)
  show "\<lceil>numeral a / numeral b :: rat\<rceil> = - (- numeral a div numeral b)"
    by (metis ceiling_def floor_divide_of_int_eq minus_divide_left of_int_minus of_int_numeral)
  show "\<lceil>1 / numeral b :: rat\<rceil> = - (- 1 div numeral b)"
    by (metis ceiling_def floor_divide_of_int_eq minus_divide_left of_int_minus of_int_numeral of_int_1)
qed

lemmas fl_eval =
  fl_def ilog2_def pow2_def roundHalfEven_def Let_def bitlen_numeral_simps floor_rat_numeral_simps

lemma fl_not_NaN: "fl x \<noteq> NaN"
  by (simp add: fl_def Let_def)

lemma fl_zero: "fl 0 = Num 0"
  by (simp add: fl_def)

lemma safeDiv_zero_left: "b \<noteq> NaN \<Longrightarrow> safeDiv (Num 0) b = Num 0"
  by (cases b) (auto simp: safeDiv_def fl_def)

lemma toFixedNumber_zero: "toFixedNumber f (Num 0) = Num 0"
  by (simp add: toFixedNumber_def fl_def floor_rat_numeral_simps)

subsection \<open>Sorting and objects\<close>

lemma insertBy_set: "set (insertBy gt x ys) = insert x (set ys)"
  by (induction ys) auto

lemma sortBy_set: "set (sortBy gt xs) = set xs"
  by (induction xs) (auto simp: sortBy_def insertBy_set)

lemma sortBy_single: "sortBy gt [x] = [x]"
  by (simp add: sortBy_def)

lemma objectValues_single: "objectValues [(k, v)] = [v]"
  by (simp add: objectValues_def objectEntries_def)

subsection \<open>Aggregated summaries\<close>

lemma aggregatedBatting_mem:
  "s \<in> set (aggregatedBatting rows) \<Longrightarrow> \<exists>st. s = battingSummaryOf st"
  by (auto simp: aggregatedBatting_def sortBy_set)

lemma aggregatedPitching_mem:
  "s \<in> set (aggregatedPitching rows) \<Longrightarrow> \<exists>st. s = pitchingSummaryOf st"
  by (auto simp: aggregatedPitching_def sortBy_set)

lemma aggregatedBatting_single:
  "aggregatedBatting [r] = [battingSummaryOf (battingAdd (battingInit r) r)]"
  by (simp add: aggregatedBatting_def battingStep_def Let_def objectValues_single sortBy_single)

lemma aggregatedPitching_single:
  "aggregatedPitching [r] = [pitchingSummaryOf (pitchingAdd (pitchingInit r) r)]"
  by (simp add: aggregatedPitching_def pitchingStep_def Let_def objectValues_single sortBy_single)

lemma battingSummaryOf_counts:
  "bs_ab (battingSummaryOf st) = bs_ab st" "bs_h (battingSummaryOf st) = bs_h st"
  "bs_bb (battingSummaryOf st) = bs_bb st" "bs_hbp (battingSummaryOf st) = bs_hbp st"
  "bs_sf (battingSummaryOf st) = bs_sf st" "bs_so (battingSummaryOf st) = bs_so st"
  "bs_doubles (battingSummaryOf st) = bs_doubles st" "bs_triples (battingSummaryOf st) = bs_triples st"
  "bs_hr (battingSummaryOf st) = bs_hr st"
  by (simp_all add: battingSummaryOf_def Let_def battingStats.defs battingSummary.defs)

lemma battingSummaryOf_rates:
  "bs_avg (battingSummaryOf st) = toFixedNumber 3 (safeDiv (ofInt (bs_h st)) (ofInt (bs_ab st)))"
  "bs_obp (battingSummaryOf st) =
     toFixedNumber 3 (safeDiv (ofInt (bs_h st + bs_bb st + bs_hbp st))
                              (ofInt (bs_ab st + bs_bb st + bs_hbp st + bs_sf st)))"
  "bs_slg (battingSummaryOf st) =
     toFixedNumber 3 (safeDiv (ofInt (bs_h st - bs_doubles st - bs_triples st - bs_hr st
                                      + bs_doubles st * 2 + bs_triples st * 3 + bs_hr st * 4))
                              (ofInt (bs_ab st)))"
  "bs_ops (battingSummaryOf st) =
     toFixedNumber 3
       (jsadd (safeDiv (ofInt (bs_h st + bs_bb st + bs_hbp st))
                       (ofInt (bs_ab st + bs_bb st + bs_hbp st + bs_sf st)))
              (safeDiv (ofInt (bs_h st - bs_doubles st - bs_triples st - bs_hr st
                               + bs_doubles st * 2 + bs_triples st * 3 + bs_hr st * 4))
                       (ofInt (bs_ab st))))"
  by (simp_all add: battingSummaryOf_def Let_def battingStats.defs battingSummary.defs)

lemma pitchingSummaryOf_fields:
  "ps_er (pitchingSummaryOf st) = ps_er st"
  "ps_outs (pitchingSummaryOf st) = ps_outs st"
  "ps_era (pitchingSummaryOf st) =
     toFixedNumber 2 (safeDiv (ofInt (ps_er st * 7)) (jsdiv (ofInt (ps_outs st)) (ofInt 3)))"
  by (simp_all add: pitchingSummaryOf_def Let_def pitchingStats.defs pitchingSummary.defs)

lemma oneForThree_counts:
  "bs_ab oneForThree = 3" "bs_h oneForThree = 1" "bs_bb oneForThree = 0" "bs_hbp oneForThree = 0"
  "bs_sf oneForThree = 0" "bs_doubles oneForThree = 0" "bs_triples oneForThree = 0"
  "bs_hr oneForThree = 0"
  by (simp_all add: oneForThree_def aggregatedBatting_single battingSummaryOf_counts
      battingAdd_def battingInit_def mkBattingRow_def)

lemma oneForThree_mem:
  "oneForThree \<in> set (aggregatedBatting [mkBattingRow ''7'' ''g1'' ''2025-10-01'' 3 1 0])"
  by (simp add: oneForThree_def aggregatedBatting_single)

lemma oneForThree_rates:
  "bs_obp oneForThree = fl (333 / 1000)" "bs_slg oneForThree = fl (333 / 1000)"
  "bs_ops oneForThree = fl (667 / 1000)"
  by (simp_all add: oneForThree_def aggregatedBatting_single battingSummaryOf_rates
      battingAdd_def battingInit_def mkBattingRow_def toFixedNumber_def safeDiv_def ofInt_def fl_eval)

subsection \<open>OPS\<close>

text \<open>
  C3, as stated, fails. The player with one single in three at-bats has the stored rates
  \<open>obp = 0.333\<close> and \<open>slg = 0.333\<close>, whose sum rounds to \<open>0.666\<close>, and the stored \<open>ops = 0.667\<close>:
  the summary's \<open>ops\<close> is not \<open>round(obp + slg, 3)\<close> of its stored, rounded rates.
\<close>

theorem ops_of_stored_rates_counterexample:
  "bs_obp oneForThree = fl (333 / 1000) \<and> bs_slg oneForThree = fl (333 / 1000)
   \<and> bs_ops oneForThree = fl (667 / 1000)
   \<and> toFixedNumber 3 (jsadd (bs_obp oneForThree) (bs_slg oneForThree)) = fl (666 / 1000)
   \<and> bs_ops oneForThree \<noteq> toFixedNumber 3 (jsadd (bs_obp oneForThree) (bs_slg oneForThree))"
proof -
  have sum: "toFixedNumber 3 (jsadd (bs_obp oneForThree) (bs_slg oneForThree)) = fl (666 / 1000)"
    unfolding oneForThree_rates by (simp add: toFixedNumber_def fl_eval)
  have ne: "fl (667 / 1000) \<noteq> fl (666 / 1000)"
    by (simp add: fl_eval)
  show ?thesis
    using sum ne by (simp add: oneForThree_rates)
qed

text \<open>
  C3, amended: for every aggregated batting summary, \<open>ops\<close> is the sum of the two unrounded
  safe quotients, on-base \<open>(H + BB + HBP) / (AB + BB + HBP + SF)\<close> and slugging
  \<open>total bases / AB\<close> taken from the summary's own counting totals, rounded to 3 decimals;
  the stored \<open>obp\<close> and \<open>slg\<close> are the same two quotients, each rounded to 3 decimals on its own.
\<close>

theorem ops_from_unrounded_rates:
  assumes "s \<in> set (aggregatedBatting rows)"
  shows "bs_ops s =
           toFixedNumber 3
             (jsadd (safeDiv (ofInt (bs_h s + bs_bb s + bs_hbp s))
                             (ofInt (bs_ab s + bs_bb s + bs_hbp s + bs_sf s)))
                    (safeDiv (ofInt (bs_h s - bs_doubles s - bs_triples s - bs_hr s
                                     + bs_doubles s * 2 + bs_triples s * 3 + bs_hr s * 4))
                             (ofInt (bs_ab s))))
         \<and> bs_obp s =
             toFixedNumber 3 (safeDiv (ofInt (bs_h s + bs_bb s + bs_hbp s))
                                      (ofInt (bs_ab s + bs_bb s + bs_hbp s + bs_sf s)))
         \<and> bs_slg s =
             toFixedNumber 3 (safeDiv (ofInt (bs_h s - bs_doubles s - bs_triples s - bs_hr s
                                              + bs_doubles s * 2 + bs_triples s * 3 + bs_hr s * 4))
                                      (ofInt (bs_ab s)))"
proof -
  from assms obtain st where "s = battingSummaryOf st"
    using aggregatedBatting_mem by blast
  then show ?thesis
    by (simp add: battingSummaryOf_counts battingSummaryOf_rates)
qed

theorem ops_from_unrounded_rates_witness:
  "oneForThree \<in> set (aggregatedBatting [mkBattingRow ''7'' ''g1'' ''2025-10-01'' 3 1 0])
   \<and> bs_ops oneForThree = toFixedNumber 3 (jsadd (safeDiv (ofInt 1) (ofInt 3)) (safeDiv (ofInt 1) (ofInt 3)))
   \<and> bs_ops oneForThree = fl (667 / 1000)"
  using ops_from_unrounded_rates [OF oneForThree_mem, THEN conjunct1]
  by (simp add: oneForThree_counts oneForThree_mem oneForThree_rates)

subsection \<open>ERA\<close>

lemma sevenInThree_mem:
  "sevenInThree \<in> set (aggregatedPitching [mkPitchingRow ''7'' ''g1'' ''2025-10-01'' 9 7 7])"
  by (simp add: sevenInThree_def aggregatedPitching_single)

lemma noneInFourOuts_mem:
  "noneInFourOuts \<in> set (aggregatedPitching [mkPitchingRow ''8'' ''g1'' ''2025-10-01'' 4 0 0])"
  by (simp add: noneInFourOuts_def aggregatedPitching_single)

lemma example_pitching_counts:
  "ps_er sevenInThree = 7" "ps_outs sevenInThree = 9"
  "ps_er noneInFourOuts = 0" "ps_outs noneInFourOuts = 4"
  by (simp_all add: sevenInThree_def noneInFourOuts_def aggregatedPitching_single
      pitchingSummaryOf_fields pitchingAdd_def pitchingInit_def mkPitchingRow_def)

text \<open>
  C5: for every aggregated pitching summary, \<open>era\<close> is the safe quotient of
  \<open>earned runs \<times> 7\<close> by \<open>outs / 3\<close>, rounded to 2 decimals; with 7 earned runs and 9 outs it
  is the number \<open>16.33\<close>, and with no earned run and any positive number of outs it is 0.
\<close>

theorem era_seven_inning_scale:
  assumes "s \<in> set (aggregatedPitching rows)"
  shows "ps_era s = toFixedNumber 2 (safeDiv (ofInt (ps_er s * 7)) (jsdiv (ofInt (ps_outs s)) (ofInt 3)))
         \<and> (ps_er s = 7 \<and> ps_outs s = 9 \<longrightarrow> ps_era s = fl (1633 / 100))
         \<and> (ps_er s = 0 \<and> 0 < ps_outs s \<longrightarrow> ps_era s = Num 0)"
proof -
  from assms obtain st where st: "s = pitchingSummaryOf st"
    using aggregatedPitching_mem by blast
  have formula:
    "ps_era s = toFixedNumber 2 (safeDiv (ofInt (ps_er s * 7)) (jsdiv (ofInt (ps_outs s)) (ofInt 3)))"
    by (simp add: st pitchingSummaryOf_fields)
  have scale: "ps_era s = fl (1633 / 100)" if "ps_er s = 7" "ps_outs s = 9"
    using that unfolding formula by (simp add: toFixedNumber_def safeDiv_def ofInt_def fl_eval)
  have none: "ps_era s = Num 0" if "ps_er s = 0" "0 < ps_outs s"
  proof -
    have "jsdiv (ofInt (ps_outs s)) (ofInt 3) \<noteq> NaN"
      by (simp add: ofInt_def fl_not_NaN)
    then show ?thesis
      using that unfolding formula by (simp add: ofInt_def safeDiv_zero_left toFixedNumber_zero)
  qed
  show ?thesis
    using formula scale none by blast
qed

theorem era_seven_inning_scale_witness:
  "sevenInThree \<in> set (aggregatedPitching [mkPitchingRow ''7'' ''g1'' ''2025-10-01'' 9 7 7])
   \<and> ps_er sevenInThree = 7 \<and> ps_outs sevenInThree = 9 \<and> ps_era sevenInThree = fl (1633 / 100)
   \<and> noneInFourOuts \<in> set (aggregatedPitching [mkPitchingRow ''8'' ''g1'' ''2025-10-01'' 4 0 0])
   \<and> ps_er noneInFourOuts = 0 \<and> 0 < ps_outs noneInFourOuts \<and> ps_era noneInFourOuts = Num 0"
  using era_seven_inning_scale [OF sevenInThree_mem, THEN conjunct2]
    era_seven_inning_scale [OF noneInFourOuts_mem, THEN conjunct2]
  by (simp add: example_pitching_counts sevenInThree_mem noneInFourOuts_mem)

subsection \<open>Dates\<close>

lemmas str_eval =
  splitOn.simps parseInt10_def isWhite_def isDigit_def digitVal_def digitsVal_def
  showInt_def showNat.simps padStart2_def Let_def

lemmas date_eval =
  parseDate_def newDateYMD_def newDateString_def timeClip_def makeDay_def
  dayFromYear_def inLeapYear_def monthStart_def yearFromDay_def monthFromDay_def dateFromDay_def
  getFullYear_def getMonth_def getDate_def setDate_def localTime_def utc_def msPerDay_def

lemma exampleEnv_fields:
  "tzOffset exampleEnv = 32400000" "dateParse exampleEnv s = None" "regexCompile exampleEnv kw = None"
  "toLowerCase exampleEnv s = s" "stringToNumber exampleEnv s = NaN"
  "localeCompare exampleEnv a b = (if a < b then - 1 else if a = b then 0 else 1)"
  by (simp_all add: exampleEnv_def)

lemma timeClip_Some: "timeClip t = Some u \<Longrightarrow> u = t \<and> \<bar>t\<bar> \<le> 8640000000000000"
  by (auto simp: timeClip_def split: if_splits)

lemma newDateYMD_Some: "newDateYMD env y m d = Some t \<Longrightarrow> \<bar>t\<bar> \<le> 8640000000000000"
  by (auto simp: newDateYMD_def Let_def dest: timeClip_Some)

lemma newDateString_Some: "newDateString env s = Some t \<Longrightarrow> \<bar>t\<bar> \<le> 8640000000000000"
  by (auto simp: newDateString_def split: option.splits dest: timeClip_Some)

text \<open>\<open>parseDate\<close> never returns an invalid date.\<close>

lemma parseDate_valid: "\<exists>t. parseDate env s = Some t \<and> \<bar>t\<bar> \<le> 8640000000000000"
  by (auto simp: parseDate_def Let_def split: option.splits if_splits prod.splits
      dest: newDateYMD_Some newDateString_Some)




lemma example_dates:
  "parseDate exampleEnv ''2025-10-01'' = Some 1759244400000"
  "parseDate exampleEnv ''2025-10-31'' = Some 1761836400000"
  "parseDate exampleEnv ''2025-11-01'' = Some 1761922800000"
  "parseDate exampleEnv ''abc'' = Some 0"
  "parseDate exampleEnv [] = Some 0"
  by (simp_all add: date_eval str_eval exampleEnv_fields)

subsection \<open>The date range of the filter\<close>



subsection \<open>Period keys\<close>

lemma showNat_nonempty: "showNat n \<noteq> []"
  by (subst showNat.simps) simp

lemma showInt_nonempty: "showInt n \<noteq> []"
  by (simp add: showInt_def showNat_nonempty)

text \<open>The guard of \<open>getKey\<close> against an invalid date never fires.\<close>

lemma teamGetKey_present: "\<exists>k. teamGetKey env r period = Some k \<and> k \<noteq> []"
proof -
  obtain t where "parseDate env (rDate r) = Some t"
    using parseDate_valid by blast
  then show ?thesis
    by (simp add: teamGetKey_def Let_def showInt_nonempty)
qed

lemma playerGetKey_present:
  "period \<noteq> ''game'' \<Longrightarrow> \<exists>k. playerGetKey env r period = Some k \<and> k \<noteq> []"
proof -
  assume "period \<noteq> ''game''"
  moreover obtain t where "parseDate env (rDate r) = Some t"
    using parseDate_valid by blast
  ultimately show ?thesis
    by (simp add: playerGetKey_def Let_def showInt_nonempty)
qed

lemma objectKeys_single: "objectKeys [(k, v)] = [k]"
  by (simp add: objectKeys_def objectEntries_def)

lemma teamTrendBatting_single:
  assumes "teamGetKey env r period = Some k" and "k \<noteq> []"
  shows "teamTrendBatting env [r] period = [battingPeriodResultOf (battingPeriodAdd (battingPeriodInit k) r)]"
  using assms
  by (simp add: teamTrendBatting_def battingPeriodStep_def Let_def objectValues_single sortBy_single)

lemma battingPeriodResultOf_counts:
  "bp_periodKey (battingPeriodResultOf m) = bp_periodKey m"
  "bp_ab (battingPeriodResultOf m) = bp_ab m" "bp_h (battingPeriodResultOf m) = bp_h m"
  by (simp_all add: battingPeriodResultOf_def Let_def battingPeriod.defs battingPeriodResult.defs)

lemma playerBattingTrendData_single:
  assumes "playerGetKey env r period = Some k" and "k \<noteq> []" and "playerKey r = pid" and "pid \<noteq> []"
  shows "map (\<lambda>b. (pb_periodKey b, t_ab b, t_h b)) (playerBattingTrendData env [r] pid ''player'' ''batting'' period)
         = [(k, b_ab r, b_h r)]"
  using assms
  by (simp add: playerBattingTrendData_def groupedRows_def groupStep_def sortedKeys_def objectKeys_single
      periodRowsOf_def Let_def battingTotalsAdd_def battingTotalsZero_def battingTotals.defs
      playerBattingBucket.defs)

lemma undatedRow_keys:
  "teamGetKey exampleEnv undatedRow ''monthly'' = Some ''1970-01''"
  "teamGetKey exampleEnv undatedRow ''quarterly'' = Some ''1970-Q1''"
  "teamGetKey exampleEnv undatedRow ''game'' = Some (''abc vs '' @ fumei)"
  "playerGetKey exampleEnv undatedRow ''monthly'' = Some ''1970-01''"
  "playerGetKey exampleEnv undatedRow ''quarterly'' = Some ''1970-Q1''"
  "playerGetKey exampleEnv undatedRow ''game'' = Some ''abc''"
  by (simp_all add: teamGetKey_def playerGetKey_def undatedRow_def mkBattingRow_def example_dates
      opponentOf_def arinko_def antos_def
      getFullYear_def getMonth_def localTime_def msPerDay_def yearFromDay_def monthFromDay_def
      dayFromYear_def inLeapYear_def monthStart_def exampleEnv_fields str_eval)

subsection \<open>Rows without a date in the period buckets\<close>

text \<open>
  C1, as the code runs. \<open>parseDate\<close> gives the epoch for a date it cannot read, in the filter
  and everywhere else, so the test for an invalid date in \<open>getKey\<close> never fires
  (\<open>teamGetKey_present\<close>, \<open>playerGetKey_present\<close>): the row dated \<^verbatim>\<open>abc\<close> is not left out of
  the buckets. In the team trend and in the player trend it is counted in the month
  \<^verbatim>\<open>1970-01\<close> and in the quarter \<^verbatim>\<open>1970-Q1\<close>, and it makes a game bucket of its own.
\<close>

theorem unparseable_date_is_bucketed:
  "parseDate exampleEnv (rDate undatedRow) = Some 0
   \<and> map (\<lambda>p. (bp_periodKey p, bp_ab p, bp_h p)) (teamTrendBatting exampleEnv [undatedRow] ''monthly'')
       = [(''1970-01'', 4, 2)]
   \<and> map (\<lambda>p. (bp_periodKey p, bp_ab p, bp_h p)) (teamTrendBatting exampleEnv [undatedRow] ''quarterly'')
       = [(''1970-Q1'', 4, 2)]
   \<and> map (\<lambda>p. (bp_periodKey p, bp_ab p, bp_h p)) (teamTrendBatting exampleEnv [undatedRow] ''game'')
       = [(''abc vs '' @ fumei, 4, 2)]
   \<and> map (\<lambda>b. (pb_periodKey b, t_ab b, t_h b))
         (playerBattingTrendData exampleEnv [undatedRow] ''7'' ''player'' ''batting'' ''monthly'')
       = [(''1970-01'', 4, 2)]
   \<and> map (\<lambda>b. (pb_periodKey b, t_ab b, t_h b))
         (playerBattingTrendData exampleEnv [undatedRow] ''7'' ''player'' ''batting'' ''quarterly'')
       = [(''1970-Q1'', 4, 2)]"
proof -
  have d: "parseDate exampleEnv (rDate undatedRow) = Some 0"
    by (simp add: undatedRow_def mkBattingRow_def example_dates)
  have r: "b_ab undatedRow = 4" "b_h undatedRow = 2" "playerKey undatedRow = ''7''"
    by (simp_all add: undatedRow_def mkBattingRow_def playerKey_def)
  have team: "map (\<lambda>p. (bp_periodKey p, bp_ab p, bp_h p)) (teamTrendBatting exampleEnv [undatedRow] period)
        = [(k, 4, 2)]" if "teamGetKey exampleEnv undatedRow period = Some k" "k \<noteq> []" for period k
    by (simp add: teamTrendBatting_single [OF that] battingPeriodResultOf_counts battingPeriodAdd_def
        battingPeriodInit_def r)
  have player: "map (\<lambda>b. (pb_periodKey b, t_ab b, t_h b))
         (playerBattingTrendData exampleEnv [undatedRow] ''7'' ''player'' ''batting'' period) = [(k, 4, 2)]"
    if "playerGetKey exampleEnv undatedRow period = Some k" "k \<noteq> []" for period k
    using playerBattingTrendData_single [OF that r(3)] by (simp add: r)
  show ?thesis
    using d team [OF undatedRow_keys(1)] team [OF undatedRow_keys(2)] team [OF undatedRow_keys(3)]
      player [OF undatedRow_keys(4)] player [OF undatedRow_keys(5)]
    by simp
qed

theorem unparseable_date_is_bucketed_witness:
  "length (teamTrendBatting exampleEnv [undatedRow] ''monthly'') = 1
   \<and> length (playerBattingTrendData exampleEnv [undatedRow] ''7'' ''player'' ''batting'' ''monthly'') = 1"
proof -
  have "length (map (\<lambda>p. (bp_periodKey p, bp_ab p, bp_h p))
                 (teamTrendBatting exampleEnv [undatedRow] ''monthly'')) = 1"
    using unparseable_date_is_bucketed by simp
  moreover have "length (map (\<lambda>b. (pb_periodKey b, t_ab b, t_h b))
                 (playerBattingTrendData exampleEnv [undatedRow] ''7'' ''player'' ''batting'' ''monthly'')) = 1"
    using unparseable_date_is_bucketed by simp
  ultimately show ?thesis
    by simp
qed

subsection \<open>The cumulative batting trend of a player\<close>

lemma throughPeriod_0: "throughPeriod f (b # bs) 0 = f b"
  by (simp add: throughPeriod_def)

lemma throughPeriod_Suc: "throughPeriod f (b # bs) (Suc k) = f b + throughPeriod f bs k"
  by (simp add: throughPeriod_def)

lemma battingTotals_foldl:
  "t_ab (foldl battingTotalsAdd acc rs) = t_ab acc + sum_list (map b_ab rs)"
  by (induction rs arbitrary: acc) (simp_all add: battingTotalsAdd_def)

lemma battingTrendBuckets_length: "length (battingTrendBuckets p g c ks) = length ks"
  by (induction ks arbitrary: c) (simp_all add: Let_def)

lemma battingTrendBuckets_keys: "map pb_periodKey (battingTrendBuckets p g c ks) = ks"
  by (induction ks arbitrary: c) (simp_all add: Let_def battingTotals.defs playerBattingBucket.defs)

lemma battingTrendBuckets_ab:
  "map t_ab (battingTrendBuckets p g c ks) = map (\<lambda>key. sum_list (map b_ab (periodRowsOf g key))) ks"
  by (induction ks arbitrary: c)
     (simp_all add: Let_def battingTotals.defs playerBattingBucket.defs battingTotals_foldl battingTotalsZero_def)

text \<open>The rates of bucket \<open>k\<close> come from the running totals: what was accumulated before the
  first bucket plus the per-period values of the buckets up to \<open>k\<close>.\<close>

lemma battingTrendBuckets_rates:
  assumes "k < length ks" and "bs = battingTrendBuckets p g c ks"
  shows "pb_avg (bs ! k) =
           toFixedNumber 3 (safeDiv (ofInt (t_h c + throughPeriod t_h bs k)) (ofInt (t_ab c + throughPeriod t_ab bs k)))
       \<and> pb_obp (bs ! k) =
           toFixedNumber 3
             (safeDiv (ofInt (t_h c + throughPeriod t_h bs k + (t_bb c + throughPeriod t_bb bs k)
                              + (t_hbp c + throughPeriod t_hbp bs k)))
                      (ofInt (t_ab c + throughPeriod t_ab bs k + (t_bb c + throughPeriod t_bb bs k)
                              + (t_hbp c + throughPeriod t_hbp bs k) + (t_sf c + throughPeriod t_sf bs k))))
       \<and> pb_slg (bs ! k) =
           toFixedNumber 3
             (safeDiv (ofInt (t_h c + throughPeriod t_h bs k - (t_doubles c + throughPeriod t_doubles bs k)
                              - (t_triples c + throughPeriod t_triples bs k) - (t_hr c + throughPeriod t_hr bs k)
                              + (t_doubles c + throughPeriod t_doubles bs k) * 2
                              + (t_triples c + throughPeriod t_triples bs k) * 3
                              + (t_hr c + throughPeriod t_hr bs k) * 4))
                      (ofInt (t_ab c + throughPeriod t_ab bs k)))
       \<and> pb_ops (bs ! k) =
           toFixedNumber 3
             (jsadd
               (safeDiv (ofInt (t_h c + throughPeriod t_h bs k + (t_bb c + throughPeriod t_bb bs k)
                              + (t_hbp c + throughPeriod t_hbp bs k)))
                      (ofInt (t_ab c + throughPeriod t_ab bs k + (t_bb c + throughPeriod t_bb bs k)
                              + (t_hbp c + throughPeriod t_hbp bs k) + (t_sf c + throughPeriod t_sf bs k))))
               (safeDiv (ofInt (t_h c + throughPeriod t_h bs k - (t_doubles c + throughPeriod t_doubles bs k)
                              - (t_triples c + throughPeriod t_triples bs k) - (t_hr c + throughPeriod t_hr bs k)
                              + (t_doubles c + throughPeriod t_doubles bs k) * 2
                              + (t_triples c + throughPeriod t_triples bs k) * 3
                              + (t_hr c + throughPeriod t_hr bs k) * 4))
                      (ofInt (t_ab c + throughPeriod t_ab bs k))))"
  using assms
proof (induction ks arbitrary: c k bs)
  case Nil
  then show ?case by simp
next
  case (Cons key keys)
  define ps where "ps = foldl battingTotalsAdd battingTotalsZero (periodRowsOf g key)"
  define c' where "c' = battingCumulate c ps"
  define rest where "rest = battingTrendBuckets p g c' keys"
  obtain b where bs: "bs = b # rest"
    and b: "t_h b = t_h ps" "t_ab b = t_ab ps" "t_bb b = t_bb ps" "t_hbp b = t_hbp ps" "t_sf b = t_sf ps"
      "t_doubles b = t_doubles ps" "t_triples b = t_triples ps" "t_hr b = t_hr ps"
    and rates: "pb_avg b = toFixedNumber 3 (safeDiv (ofInt (t_h c')) (ofInt (t_ab c')))"
      "pb_obp b = toFixedNumber 3 (safeDiv (ofInt (t_h c' + t_bb c' + t_hbp c'))
                                         (ofInt (t_ab c' + t_bb c' + t_hbp c' + t_sf c')))"
      "pb_slg b = toFixedNumber 3 (safeDiv (ofInt (t_h c' - t_doubles c' - t_triples c' - t_hr c'
                                     + t_doubles c' * 2 + t_triples c' * 3 + t_hr c' * 4)) (ofInt (t_ab c')))"
      "pb_ops b = toFixedNumber 3 (jsadd (safeDiv (ofInt (t_h c' + t_bb c' + t_hbp c'))
                                         (ofInt (t_ab c' + t_bb c' + t_hbp c' + t_sf c')))
                                   (safeDiv (ofInt (t_h c' - t_doubles c' - t_triples c' - t_hr c'
                                     + t_doubles c' * 2 + t_triples c' * 3 + t_hr c' * 4)) (ofInt (t_ab c'))))"
    using Cons.prems(2)
    by (simp add: Let_def ps_def c'_def rest_def battingTotals.defs playerBattingBucket.defs)
  have c': "t_h c' = t_h c + t_h b" "t_ab c' = t_ab c + t_ab b" "t_bb c' = t_bb c + t_bb b"
    "t_hbp c' = t_hbp c + t_hbp b" "t_sf c' = t_sf c + t_sf b" "t_doubles c' = t_doubles c + t_doubles b"
    "t_triples c' = t_triples c + t_triples b" "t_hr c' = t_hr c + t_hr b"
    by (simp_all add: c'_def battingCumulate_def b)
  show ?case
  proof (cases k)
    case 0
    then show ?thesis
      by (simp add: bs rates c' throughPeriod_0)
  next
    case (Suc k')
    then have "k' < length keys" using Cons.prems(1) by simp
    from Cons.IH [OF this rest_def] show ?thesis
      by (simp add: bs Suc c' throughPeriod_Suc add.assoc)
  qed
qed


lemma assign_keys:
  "map fst (assign m k v) = (if k \<in> set (map fst m) then map fst m else map fst m @ [k])"
  by (induction m) force+

lemma groupStep_distinct:
  "distinct (map fst g) \<Longrightarrow> distinct (map fst (groupStep env p g r))"
  by (auto simp: groupStep_def assign_keys split: option.splits)

lemma groupedRows_distinct: "distinct (map fst (groupedRows env pid p rows))"
proof -
  have "distinct (map fst g) \<Longrightarrow> distinct (map fst (foldl (groupStep env p) g rs))" for g rs
    by (induction rs arbitrary: g) (simp_all add: groupStep_distinct)
  from this [of "[]"] show ?thesis
    by (simp add: groupedRows_def)
qed

lemma objectKeys_distinct: "distinct (map fst obj) \<Longrightarrow> distinct (objectKeys obj)"
proof -
  assume d: "distinct (map fst obj)"
  let ?ix = "filter (\<lambda>kv. isArrayIndex (fst kv)) obj"
  let ?rest = "filter (\<lambda>kv. \<not> isArrayIndex (fst kv)) obj"
  have "mset (objectKeys obj) = mset (map fst ?ix) + mset (map fst ?rest)"
    by (simp add: objectKeys_def objectEntries_def)
  also have "\<dots> = mset (map fst obj)"
    by (induction obj) simp_all
  finally have "mset (objectKeys obj) = mset (map fst obj)" .
  then show ?thesis
    using d mset_eq_imp_distinct_iff by blast
qed

lemma sortedKeys_sorted: "sorted (sortedKeys g)" "distinct (map fst g) \<Longrightarrow> distinct (sortedKeys g)"
  by (simp_all add: sortedKeys_def objectKeys_distinct)

lemma twoMonths_buckets:
  "map t_ab twoMonthsTrend = [4, 2]" "map t_h twoMonthsTrend = [1, 1]"
  by (simp_all add: twoMonthsTrend_def playerBattingTrendData_def groupedRows_def groupStep_def
      twoMonths_def mkBattingRow_def playerKey_def playerGetKey_def sortedKeys_def objectKeys_def
      objectEntries_def isArrayIndex_def periodRowsOf_def battingTotals.defs playerBattingBucket.defs
      battingTotalsAdd_def battingTotalsZero_def date_eval str_eval exampleEnv_fields)

lemma twoMonths_through:
  "throughPeriod t_ab twoMonthsTrend (Suc 0) = 6" "throughPeriod t_h twoMonthsTrend (Suc 0) = 2"
proof -
  have "throughPeriod f twoMonthsTrend (Suc 0) = sum_list (take (Suc (Suc 0)) (map f twoMonthsTrend))" for f
    by (simp add: throughPeriod_def take_map)
  then show "throughPeriod t_ab twoMonthsTrend (Suc 0) = 6" "throughPeriod t_h twoMonthsTrend (Suc 0) = 2"
    by (simp_all add: twoMonths_buckets)
qed

lemma twoMonths_nth:
  "t_ab (twoMonthsTrend ! 0) = 4" "t_ab (twoMonthsTrend ! Suc 0) = 2" "length twoMonthsTrend = 2"
proof -
  have l: "length twoMonthsTrend = length (map t_ab twoMonthsTrend)"
    by simp
  then show len: "length twoMonthsTrend = 2"
    by (simp only: twoMonths_buckets) simp
  have "t_ab (twoMonthsTrend ! k) = map t_ab twoMonthsTrend ! k" if "k < 2" for k
    using that len by simp
  then show "t_ab (twoMonthsTrend ! 0) = 4" "t_ab (twoMonthsTrend ! Suc 0) = 2"
    by (simp_all add: twoMonths_buckets)
qed

text \<open>
  C2, as stated, fails in its first half. A player with four at-bats in October and two in
  November has a monthly trend of two buckets; the second carries \<open>ab = 2\<close>, the at-bats of
  November alone, not the \<open>6\<close> of both months, and less than the \<open>4\<close> of the first.
\<close>

theorem bucket_ab_is_not_cumulative_counterexample:
  "map t_ab twoMonthsTrend = [4, 2]
   \<and> throughPeriod t_ab twoMonthsTrend 1 = 6
   \<and> t_ab (twoMonthsTrend ! 1) \<noteq> throughPeriod t_ab twoMonthsTrend 1
   \<and> t_ab (twoMonthsTrend ! 1) < t_ab (twoMonthsTrend ! 0)"
  by (simp add: twoMonths_buckets twoMonths_through twoMonths_nth)

text \<open>
  C2, amended: in a player's batting trend the buckets come in the ascending order of their
  period keys, one per key; the AB value a bucket carries is the sum of the at-bats of the
  rows of its own period; and the rates \<open>avg\<close>, \<open>obp\<close>, \<open>slg\<close> and \<open>ops\<close> of the bucket at period
  \<open>k\<close> are computed from the counting values summed over the buckets of the periods 1
  through \<open>k\<close>.
\<close>

theorem cumulative_batting_trend:
  assumes "bs = playerBattingTrendData env rows pid target type' period" and "k < length bs"
  shows "t_ab (bs ! k) = sum_list (map b_ab (periodRowsOf (groupedRows env pid period rows) (pb_periodKey (bs ! k))))
       \<and> sorted (map pb_periodKey bs) \<and> distinct (map pb_periodKey bs)
       \<and> pb_avg (bs ! k) =
           toFixedNumber 3 (safeDiv (ofInt (throughPeriod t_h bs k)) (ofInt (throughPeriod t_ab bs k)))
       \<and> pb_obp (bs ! k) =
           toFixedNumber 3
             (safeDiv (ofInt (throughPeriod t_h bs k + throughPeriod t_bb bs k + throughPeriod t_hbp bs k))
                      (ofInt (throughPeriod t_ab bs k + throughPeriod t_bb bs k + throughPeriod t_hbp bs k
                              + throughPeriod t_sf bs k)))
       \<and> pb_slg (bs ! k) =
           toFixedNumber 3
             (safeDiv (ofInt (throughPeriod t_h bs k - throughPeriod t_doubles bs k
                              - throughPeriod t_triples bs k - throughPeriod t_hr bs k
                              + throughPeriod t_doubles bs k * 2 + throughPeriod t_triples bs k * 3
                              + throughPeriod t_hr bs k * 4))
                      (ofInt (throughPeriod t_ab bs k)))
       \<and> pb_ops (bs ! k) =
           toFixedNumber 3
             (jsadd
               (safeDiv (ofInt (throughPeriod t_h bs k + throughPeriod t_bb bs k + throughPeriod t_hbp bs k))
                        (ofInt (throughPeriod t_ab bs k + throughPeriod t_bb bs k + throughPeriod t_hbp bs k
                                + throughPeriod t_sf bs k)))
               (safeDiv (ofInt (throughPeriod t_h bs k - throughPeriod t_doubles bs k
                                - throughPeriod t_triples bs k - throughPeriod t_hr bs k
                                + throughPeriod t_doubles bs k * 2 + throughPeriod t_triples bs k * 3
                                + throughPeriod t_hr bs k * 4))
                        (ofInt (throughPeriod t_ab bs k))))"
proof -
  define g where "g = groupedRows env pid period rows"
  have run: "bs = battingTrendBuckets period g battingCumulativeZero (sortedKeys g)"
    using assms by (auto simp: playerBattingTrendData_def Let_def g_def split: if_splits)
  have keys: "map pb_periodKey bs = sortedKeys g"
    by (simp add: run battingTrendBuckets_keys)
  have k: "k < length (sortedKeys g)"
    using assms(2) by (simp add: run battingTrendBuckets_length)
  have key: "pb_periodKey (bs ! k) = sortedKeys g ! k"
    using keys assms(2) by (metis nth_map)
  have "t_ab (bs ! k) = map t_ab bs ! k"
    using assms(2) by simp
  also have "\<dots> = sum_list (map b_ab (periodRowsOf g (sortedKeys g ! k)))"
    using k by (simp add: run battingTrendBuckets_ab)
  finally have ab: "t_ab (bs ! k) = sum_list (map b_ab (periodRowsOf g (pb_periodKey (bs ! k))))"
    by (simp add: key)
  have ord: "sorted (map pb_periodKey bs)" "distinct (map pb_periodKey bs)"
    by (simp_all add: keys sortedKeys_sorted g_def groupedRows_distinct)
  have zero: "t_h battingCumulativeZero = 0" "t_ab battingCumulativeZero = 0" "t_bb battingCumulativeZero = 0"
    "t_hbp battingCumulativeZero = 0" "t_sf battingCumulativeZero = 0" "t_doubles battingCumulativeZero = 0"
    "t_triples battingCumulativeZero = 0" "t_hr battingCumulativeZero = 0"
    by (simp_all add: battingCumulativeZero_def)
  show ?thesis
    using battingTrendBuckets_rates [OF k run] ab ord
    unfolding zero g_def by simp
qed

theorem cumulative_batting_trend_witness:
  "twoMonthsTrend = playerBattingTrendData exampleEnv twoMonths ''7'' ''player'' ''batting'' ''monthly''
   \<and> 1 < length twoMonthsTrend
   \<and> throughPeriod t_h twoMonthsTrend 1 = 2 \<and> throughPeriod t_ab twoMonthsTrend 1 = 6
   \<and> pb_avg (twoMonthsTrend ! 1) = toFixedNumber 3 (safeDiv (ofInt 2) (ofInt 6))"
proof -
  have len: "1 < length twoMonthsTrend"
    by (simp add: twoMonths_nth)
  have "pb_avg (twoMonthsTrend ! 1) =
          toFixedNumber 3 (safeDiv (ofInt (throughPeriod t_h twoMonthsTrend 1))
                                   (ofInt (throughPeriod t_ab twoMonthsTrend 1)))"
    using cumulative_batting_trend [OF twoMonthsTrend_def len] by blast
  then show ?thesis
    using len by (simp add: twoMonths_through twoMonthsTrend_def [symmetric])
qed

subsection \<open>The pitching trend of a player\<close>

lemma total_append: "total f (xs @ ys) = total f xs + total f ys"
  by (simp add: total_def)

lemma rowsThrough_0: "rowsThrough g (key # keys) 0 = periodRowsOf g key"
  by (simp add: rowsThrough_def)

lemma rowsThrough_Suc: "rowsThrough g (key # keys) (Suc k) = periodRowsOf g key @ rowsThrough g keys k"
  by (simp add: rowsThrough_def)

lemma pitchingPeriodStats_foldl:
  "q_outs (foldl pitchingPeriodStatsAdd acc rs) = q_outs acc + total p_outs rs"
  "q_er (foldl pitchingPeriodStatsAdd acc rs) = q_er acc + total p_er rs"
  "q_bb (foldl pitchingPeriodStatsAdd acc rs) = q_bb acc + total p_bb rs"
  "q_hbp (foldl pitchingPeriodStatsAdd acc rs) = q_hbp acc + total p_hbp rs"
  "q_h (foldl pitchingPeriodStatsAdd acc rs) = q_h acc + total p_h rs"
  "q_so (foldl pitchingPeriodStatsAdd acc rs) = q_so acc + total p_so rs"
  "q_pitches (foldl pitchingPeriodStatsAdd acc rs) = q_pitches acc + total p_pitches rs"
  "q_strikes (foldl pitchingPeriodStatsAdd acc rs) = q_strikes acc + total p_s rs"
  by (induction rs arbitrary: acc; simp add: pitchingPeriodStatsAdd_def total_def)+

lemma pitchingTrendBuckets_length: "length (pitchingTrendBuckets p g c ks) = length ks"
  by (induction ks arbitrary: c) (simp_all add: Let_def)

lemma pitchingTrendBuckets_keys: "map pt_periodKey (pitchingTrendBuckets p g c ks) = ks"
  by (induction ks arbitrary: c) (simp_all add: Let_def)

lemma pitchingTrendBuckets_nth:
  assumes "k < length ks" and "bs = pitchingTrendBuckets p g c ks"
  shows "pt_era (bs ! k) =
           toFixedNumber 2 (safeDiv (ofInt ((q_er c + total p_er (rowsThrough g ks k)) * 7))
                                    (jsdiv (ofInt (q_outs c + total p_outs (rowsThrough g ks k))) (ofInt 3)))
       \<and> pt_whip (bs ! k) =
           toFixedNumber 2 (safeDiv (ofInt (q_bb c + total p_bb (rowsThrough g ks k)
                                             + (q_hbp c + total p_hbp (rowsThrough g ks k))
                                             + (q_h c + total p_h (rowsThrough g ks k))))
                                    (jsdiv (ofInt (q_outs c + total p_outs (rowsThrough g ks k))) (ofInt 3)))
       \<and> pt_kbb (bs ! k) =
           toFixedNumber 2 (safeDiv (ofInt (q_so c + total p_so (rowsThrough g ks k)))
                                    (ofInt (q_bb c + total p_bb (rowsThrough g ks k))))
       \<and> pt_kPer7 (bs ! k) =
           toFixedNumber 2 (safeDiv (ofInt ((q_so c + total p_so (rowsThrough g ks k)) * 7))
                                    (jsdiv (ofInt (q_outs c + total p_outs (rowsThrough g ks k))) (ofInt 3)))
       \<and> pt_bbPer7 (bs ! k) =
           toFixedNumber 2 (safeDiv (ofInt ((q_bb c + total p_bb (rowsThrough g ks k)
                                              + (q_hbp c + total p_hbp (rowsThrough g ks k))) * 7))
                                    (jsdiv (ofInt (q_outs c + total p_outs (rowsThrough g ks k))) (ofInt 3)))
       \<and> pt_innings (bs ! k) =
           toFixedNumber 1 (jsdiv (ofInt (total p_outs (periodRowsOf g (ks ! k)))) (ofInt 3))
       \<and> pt_strikeRate (bs ! k) =
           toFixedNumber 1 (jsmul (safeDiv (ofInt (total p_s (periodRowsOf g (ks ! k))))
                                           (ofInt (total p_pitches (periodRowsOf g (ks ! k))))) (Num 100))
       \<and> pt_bb (bs ! k) = total p_bb (periodRowsOf g (ks ! k))
       \<and> pt_hbp (bs ! k) = total p_hbp (periodRowsOf g (ks ! k))
       \<and> pt_pitches (bs ! k) = total p_pitches (periodRowsOf g (ks ! k))"
  using assms
proof (induction ks arbitrary: c k bs)
  case Nil
  then show ?case by simp
next
  case (Cons key keys)
  define ps where "ps = foldl pitchingPeriodStatsAdd pitchingPeriodStatsZero (periodRowsOf g key)"
  define c' where "c' = pitchingCumulate c ps"
  define rest where "rest = pitchingTrendBuckets p g c' keys"
  have ps: "q_outs ps = total p_outs (periodRowsOf g key)" "q_er ps = total p_er (periodRowsOf g key)"
    "q_bb ps = total p_bb (periodRowsOf g key)" "q_hbp ps = total p_hbp (periodRowsOf g key)"
    "q_h ps = total p_h (periodRowsOf g key)" "q_so ps = total p_so (periodRowsOf g key)"
    "q_pitches ps = total p_pitches (periodRowsOf g key)" "q_strikes ps = total p_s (periodRowsOf g key)"
    by (simp_all add: ps_def pitchingPeriodStats_foldl pitchingPeriodStatsZero_def)
  have c': "q_outs c' = q_outs c + q_outs ps" "q_er c' = q_er c + q_er ps" "q_bb c' = q_bb c + q_bb ps"
    "q_hbp c' = q_hbp c + q_hbp ps" "q_h c' = q_h c + q_h ps" "q_so c' = q_so c + q_so ps"
    by (simp_all add: c'_def pitchingCumulate_def)
  have bs: "bs = \<lparr>pt_periodKey = key, pt_opponent = bucketOpponent p (periodRowsOf g key),
       pt_era = toFixedNumber 2 (safeDiv (ofInt (q_er c' * 7)) (jsdiv (ofInt (q_outs c')) (ofInt 3))),
       pt_whip = toFixedNumber 2 (safeDiv (ofInt (q_bb c' + q_hbp c' + q_h c')) (jsdiv (ofInt (q_outs c')) (ofInt 3))),
       pt_kbb = toFixedNumber 2 (safeDiv (ofInt (q_so c')) (ofInt (q_bb c'))),
       pt_innings = toFixedNumber 1 (jsdiv (ofInt (q_outs ps)) (ofInt 3)),
       pt_kPer7 = toFixedNumber 2 (safeDiv (ofInt (q_so c' * 7)) (jsdiv (ofInt (q_outs c')) (ofInt 3))),
       pt_bbPer7 = toFixedNumber 2 (safeDiv (ofInt ((q_bb c' + q_hbp c') * 7)) (jsdiv (ofInt (q_outs c')) (ofInt 3))),
       pt_strikeRate = toFixedNumber 1 (jsmul (safeDiv (ofInt (q_strikes ps)) (ofInt (q_pitches ps))) (Num 100)),
       pt_bb = q_bb ps, pt_hbp = q_hbp ps, pt_pitches = q_pitches ps\<rparr> # rest"
    using Cons.prems(2) by (simp add: Let_def ps_def c'_def rest_def)
  show ?case
  proof (cases k)
    case 0
    then show ?thesis
      by (simp add: bs c' ps rowsThrough_0)
  next
    case (Suc k')
    then have "k' < length keys" using Cons.prems(1) by simp
    from Cons.IH [OF this rest_def] show ?thesis
      by (simp add: bs Suc c' ps rowsThrough_Suc total_append add.assoc)
  qed
qed


text \<open>
  C10: in a player's pitching trend, with \<open>cum\<close> the rows of the periods 1 through \<open>k\<close> and
  \<open>per\<close> the rows of period \<open>k\<close> alone, the bucket of period \<open>k\<close> has \<open>era\<close>, \<open>whip\<close>, \<open>kbb\<close>,
  \<open>kPer7\<close> and \<open>bbPer7\<close> computed from the totals of \<open>cum\<close>, and \<open>innings\<close>, \<open>strikeRate\<close>, \<open>bb\<close>,
  \<open>hbp\<close> and \<open>pitches\<close> computed from the totals of \<open>per\<close>. The running totals have no counter
  for pitches or strikes.
\<close>

theorem pitching_trend_cumulative_and_period:
  assumes "bs = playerPitchingTrendData env rows pid target type' period" and "k < length bs"
    and "cum = rowsThrough (groupedRows env pid period rows) (sortedKeys (groupedRows env pid period rows)) k"
    and "per = periodRowsOf (groupedRows env pid period rows) (pt_periodKey (bs ! k))"
  shows "pt_era (bs ! k) =
           toFixedNumber 2 (safeDiv (ofInt (total p_er cum * 7)) (jsdiv (ofInt (total p_outs cum)) (ofInt 3)))
       \<and> pt_whip (bs ! k) =
           toFixedNumber 2 (safeDiv (ofInt (total p_bb cum + total p_hbp cum + total p_h cum))
                                    (jsdiv (ofInt (total p_outs cum)) (ofInt 3)))
       \<and> pt_kbb (bs ! k) = toFixedNumber 2 (safeDiv (ofInt (total p_so cum)) (ofInt (total p_bb cum)))
       \<and> pt_kPer7 (bs ! k) =
           toFixedNumber 2 (safeDiv (ofInt (total p_so cum * 7)) (jsdiv (ofInt (total p_outs cum)) (ofInt 3)))
       \<and> pt_bbPer7 (bs ! k) =
           toFixedNumber 2 (safeDiv (ofInt ((total p_bb cum + total p_hbp cum) * 7))
                                    (jsdiv (ofInt (total p_outs cum)) (ofInt 3)))
       \<and> pt_innings (bs ! k) = toFixedNumber 1 (jsdiv (ofInt (total p_outs per)) (ofInt 3))
       \<and> pt_strikeRate (bs ! k) =
           toFixedNumber 1 (jsmul (safeDiv (ofInt (total p_s per)) (ofInt (total p_pitches per))) (Num 100))
       \<and> pt_bb (bs ! k) = total p_bb per
       \<and> pt_hbp (bs ! k) = total p_hbp per
       \<and> pt_pitches (bs ! k) = total p_pitches per"
proof -
  define g where "g = groupedRows env pid period rows"
  have run: "bs = pitchingTrendBuckets period g pitchingTotalsZero (sortedKeys g)"
    using assms(1,2) by (auto simp: playerPitchingTrendData_def Let_def g_def split: if_splits)
  have k: "k < length (sortedKeys g)"
    using assms(2) by (simp add: run pitchingTrendBuckets_length)
  have "map pt_periodKey bs = sortedKeys g"
    by (simp add: run pitchingTrendBuckets_keys)
  then have key: "pt_periodKey (bs ! k) = sortedKeys g ! k"
    using assms(2) by (metis nth_map)
  have zero: "q_outs pitchingTotalsZero = 0" "q_er pitchingTotalsZero = 0" "q_bb pitchingTotalsZero = 0"
    "q_hbp pitchingTotalsZero = 0" "q_h pitchingTotalsZero = 0" "q_so pitchingTotalsZero = 0"
    by (simp_all add: pitchingTotalsZero_def)
  show ?thesis
    using pitchingTrendBuckets_nth [OF k run]
    unfolding zero assms(3,4) key g_def by simp
qed

lemma twoPitchingMonths_grouped:
  "groupedRows exampleEnv ''7'' ''monthly'' twoPitchingMonths =
     [(''2025-10'', [mkPitchingRow ''7'' ''g1'' ''2025-10-01'' 9 2 2]),
      (''2025-11'', [mkPitchingRow ''7'' ''g2'' ''2025-11-08'' 3 3 3])]"
  by (simp add: groupedRows_def groupStep_def twoPitchingMonths_def mkPitchingRow_def
      playerKey_def playerGetKey_def date_eval str_eval exampleEnv_fields)

lemma twoPitchingMonths_keys:
  "sortedKeys (groupedRows exampleEnv ''7'' ''monthly'' twoPitchingMonths) = [''2025-10'', ''2025-11'']"
  by (simp add: twoPitchingMonths_grouped sortedKeys_def objectKeys_def objectEntries_def
      isArrayIndex_def isDigit_def)

lemma twoPitchingMonths_length: "length twoPitchingMonthsTrend = 2"
  by (simp add: twoPitchingMonthsTrend_def playerPitchingTrendData_def Let_def
      pitchingTrendBuckets_length twoPitchingMonths_keys)

lemma twoPitchingMonths_key: "pt_periodKey (twoPitchingMonthsTrend ! Suc 0) = ''2025-11''"
proof -
  have "map pt_periodKey twoPitchingMonthsTrend = [''2025-10'', ''2025-11'']"
    by (simp add: twoPitchingMonthsTrend_def playerPitchingTrendData_def Let_def
        pitchingTrendBuckets_keys twoPitchingMonths_keys)
  moreover have "pt_periodKey (twoPitchingMonthsTrend ! Suc 0) = map pt_periodKey twoPitchingMonthsTrend ! Suc 0"
    by (simp add: twoPitchingMonths_length)
  ultimately show ?thesis
    by simp
qed

theorem pitching_trend_cumulative_and_period_witness:
  "1 < length twoPitchingMonthsTrend
   \<and> pt_era (twoPitchingMonthsTrend ! 1) = toFixedNumber 2 (safeDiv (ofInt ((2 + 3) * 7)) (jsdiv (ofInt (9 + 3)) (ofInt 3)))
   \<and> pt_era (twoPitchingMonthsTrend ! 1) = fl (875 / 100)
   \<and> pt_innings (twoPitchingMonthsTrend ! 1) = toFixedNumber 1 (jsdiv (ofInt 3) (ofInt 3))
   \<and> pt_innings (twoPitchingMonthsTrend ! 1) = Num 1"
proof -
  let ?g = "groupedRows exampleEnv ''7'' ''monthly'' twoPitchingMonths"
  have len: "1 < length twoPitchingMonthsTrend"
    by (simp add: twoPitchingMonths_length)
  have "rowsThrough ?g (sortedKeys ?g) 1 =
          [mkPitchingRow ''7'' ''g1'' ''2025-10-01'' 9 2 2, mkPitchingRow ''7'' ''g2'' ''2025-11-08'' 3 3 3]"
    unfolding rowsThrough_def twoPitchingMonths_keys
    by (simp add: periodRowsOf_def twoPitchingMonths_grouped)
  then have cum: "rowsThrough ?g (sortedKeys ?g) 1 = twoPitchingMonths"
    by (simp add: twoPitchingMonths_def)
  have per: "periodRowsOf ?g (pt_periodKey (twoPitchingMonthsTrend ! 1)) = [mkPitchingRow ''7'' ''g2'' ''2025-11-08'' 3 3 3]"
    by (simp add: twoPitchingMonths_key periodRowsOf_def twoPitchingMonths_grouped)
  note t = pitching_trend_cumulative_and_period [OF twoPitchingMonthsTrend_def len cum [symmetric] per [symmetric]]
  have era: "pt_era (twoPitchingMonthsTrend ! 1) =
      toFixedNumber 2 (safeDiv (ofInt ((2 + 3) * 7)) (jsdiv (ofInt (9 + 3)) (ofInt 3)))"
    using t [THEN conjunct1] by (simp add: total_def twoPitchingMonths_def mkPitchingRow_def)
  have inn: "pt_innings (twoPitchingMonthsTrend ! 1) = toFixedNumber 1 (jsdiv (ofInt 3) (ofInt 3))"
    using t by (simp add: total_def mkPitchingRow_def)
  have v1: "toFixedNumber 2 (safeDiv (ofInt ((2 + 3) * 7)) (jsdiv (ofInt (9 + 3)) (ofInt 3))) = fl (875 / 100)"
    by (simp add: toFixedNumber_def safeDiv_def ofInt_def fl_eval)
  have v2: "toFixedNumber 1 (jsdiv (ofInt 3) (ofInt 3)) = Num 1"
    by (simp add: toFixedNumber_def ofInt_def fl_eval)
  show ?thesis
    using len era inn v1 v2 by simp
qed

subsection \<open>Game outcomes\<close>

lemma lookup_map_of: "lookup m k = map_of m k"
  by (induction m) auto

lemma map_of_assign: "map_of (assign m k v) = (map_of m)(k \<mapsto> v)"
  by (induction m) (auto simp: fun_eq_iff)

lemma assign_key_set: "fst ` set (assign m k v) = insert k (fst ` set m)"
proof -
  have "set (map fst (assign m k v)) = insert k (set (map fst m))"
    by (auto simp: assign_keys)
  then show ?thesis
    by simp
qed

lemma assign_distinct: "distinct (map fst m) \<Longrightarrow> distinct (map fst (assign m k v))"
  by (simp add: assign_keys)

subsection \<open>The first pass\<close>

lemma gameBattingStep_keys:
  "fst ` set (gameBattingStep m r) = fst ` set m \<union> (if rGameId r = [] then {} else {rGameId r})"
  by (simp add: gameBattingStep_def Let_def assign_key_set)

lemma gameBattingStep_distinct: "distinct (map fst m) \<Longrightarrow> distinct (map fst (gameBattingStep m r))"
  by (simp add: gameBattingStep_def Let_def assign_distinct)

lemma gameBatting_keys:
  "fst ` set (foldl gameBattingStep m rows) = fst ` set m \<union> {gid \<in> rGameId ` set rows. gid \<noteq> []}"
proof (induction rows arbitrary: m)
  case Nil
  then show ?case by simp
next
  case (Cons r rows)
  show ?case
    unfolding foldl_Cons Cons.IH gameBattingStep_keys by auto
qed

lemma gameBatting_distinct:
  "distinct (map fst m) \<Longrightarrow> distinct (map fst (foldl gameBattingStep m rows))"
  by (induction rows arbitrary: m) (simp_all add: gameBattingStep_distinct)

lemma gameBattingStep_other:
  "gid \<noteq> rGameId r \<or> rGameId r = [] \<Longrightarrow> map_of (gameBattingStep m r) gid = map_of m gid"
  by (auto simp: gameBattingStep_def Let_def map_of_assign)

lemma gameBattingStep_new:
  assumes "rGameId r = gid" and "gid \<noteq> []" and "map_of m gid = None"
  shows "\<exists>g. map_of (gameBattingStep m r) gid = Some g \<and> g_id g = gid \<and> g_date g = rDate r
             \<and> g_runsScored g = b_runs r \<and> g_runsAllowed g = 0"
  using assms by (simp add: gameBattingStep_def Let_def map_of_assign lookup_map_of)

lemma gameBattingStep_old:
  assumes "rGameId r = gid" and "gid \<noteq> []" and "map_of m gid = Some g0"
  shows "map_of (gameBattingStep m r) gid = Some (g0\<lparr>g_runsScored := g_runsScored g0 + b_runs r\<rparr>)"
  using assms by (simp add: gameBattingStep_def Let_def map_of_assign lookup_map_of)

lemma gameBatting_fields:
  "map_of (foldl gameBattingStep [] rows) gid = Some g \<Longrightarrow>
     g_id g = gid \<and> gid \<noteq> [] \<and> g_runsAllowed g = 0
     \<and> g_runsScored g = total b_runs (filter (\<lambda>r. rGameId r = gid) rows)"
proof (induction rows arbitrary: g rule: rev_induct)
  case Nil
  then show ?case by simp
next
  case (snoc r rows)
  let ?m = "foldl gameBattingStep [] rows"
  show ?case
  proof (cases "rGameId r = gid \<and> gid \<noteq> []")
    case True
    show ?thesis
    proof (cases "map_of ?m gid")
      case None
      then have "gid \<notin> fst ` set ?m"
        by (simp add: map_of_eq_None_iff)
      then have "gid \<notin> rGameId ` set rows"
        using True by (simp add: gameBatting_keys)
      then have "filter (\<lambda>r. rGameId r = gid) rows = []"
        by (auto simp: filter_empty_conv)
      then show ?thesis
        using gameBattingStep_new [of r gid ?m] True None snoc.prems
        by (auto simp: total_def)
    next
      case (Some g0)
      with True snoc.prems snoc.IH [OF Some] gameBattingStep_old [of r gid ?m g0] show ?thesis
        by (auto simp: total_def)
    qed
  next
    case False
    then have "map_of (gameBattingStep ?m r) gid = map_of ?m gid"
      by (intro gameBattingStep_other) auto
    with snoc.prems have "map_of ?m gid = Some g" by simp
    from snoc.IH [OF this] False show ?thesis
      by (auto simp: total_def)
  qed
qed

subsection \<open>The second pass\<close>

lemma gamePitchingStep_keys: "map fst (gamePitchingStep m r) = map fst m"
proof (cases "map_of m (rGameId r)")
  case None
  then show ?thesis by (simp add: gamePitchingStep_def Let_def lookup_map_of)
next
  case (Some g)
  then have "rGameId r \<in> set (map fst m)"
    by (metis map_of_eq_None_iff option.distinct(1) set_map)
  then show ?thesis
    using Some by (simp add: gamePitchingStep_def Let_def lookup_map_of assign_keys)
qed

lemma gamePitching_keys: "map fst (foldl gamePitchingStep m rows) = map fst m"
  by (induction rows arbitrary: m) (simp_all add: gamePitchingStep_keys)

lemma gamePitchingStep_map_of:
  "map_of (gamePitchingStep m r) gid =
     (if rGameId r = gid then map_option (\<lambda>g. g\<lparr>g_runsAllowed := g_runsAllowed g + p_r r\<rparr>) (map_of m gid)
      else map_of m gid)"
  by (auto simp: gamePitchingStep_def Let_def lookup_map_of map_of_assign split: option.splits)

lemma gamePitching_fields:
  "map_of (foldl gamePitchingStep m rows) gid =
     map_option (\<lambda>g. g\<lparr>g_runsAllowed := g_runsAllowed g + total p_r (filter (\<lambda>r. rGameId r = gid) rows)\<rparr>)
       (map_of m gid)"
proof (induction rows rule: rev_induct)
  case Nil
  then show ?case by (cases "map_of m gid") (simp_all add: total_def)
next
  case (snoc r rows)
  then show ?case
    by (cases "map_of m gid") (simp_all add: gamePitchingStep_map_of total_def)
qed

text \<open>The map after both passes.\<close>

lemma gamesMap_entries:
  assumes "(gid, g) \<in> set (foldl gamePitchingStep (foldl gameBattingStep [] brows) prows)"
  shows "g_id g = gid \<and> gid \<noteq> []
       \<and> g_runsScored g = total b_runs (filter (\<lambda>r. rGameId r = gid) brows)
       \<and> g_runsAllowed g = total p_r (filter (\<lambda>r. rGameId r = gid) prows)"
proof -
  let ?m1 = "foldl gameBattingStep [] brows"
  let ?m2 = "foldl gamePitchingStep ?m1 prows"
  have "distinct (map fst ?m2)"
    by (simp add: gamePitching_keys gameBatting_distinct)
  with assms have "map_of ?m2 gid = Some g"
    by simp
  then obtain g1 where g1: "map_of ?m1 gid = Some g1"
    and g: "g = g1\<lparr>g_runsAllowed := g_runsAllowed g1 + total p_r (filter (\<lambda>r. rGameId r = gid) prows)\<rparr>"
    by (auto simp: gamePitching_fields)
  from gameBatting_fields [OF g1] show ?thesis
    by (simp add: g)
qed

lemma gamesMap_ids:
  "set (map g_id (map snd (foldl gamePitchingStep (foldl gameBattingStep [] brows) prows)))
     = {gid \<in> rGameId ` set brows. gid \<noteq> []}"
  "distinct (map g_id (map snd (foldl gamePitchingStep (foldl gameBattingStep [] brows) prows)))"
proof -
  let ?m2 = "foldl gamePitchingStep (foldl gameBattingStep [] brows) prows"
  have "map g_id (map snd ?m2) = map fst ?m2"
    using gamesMap_entries [of _ _ brows prows] by (auto simp: map_eq_conv)
  moreover have "map fst ?m2 = map fst (foldl gameBattingStep [] brows)"
    by (simp add: gamePitching_keys)
  ultimately have eq: "map g_id (map snd ?m2) = map fst (foldl gameBattingStep [] brows)"
    by simp
  show "set (map g_id (map snd ?m2)) = {gid \<in> rGameId ` set brows. gid \<noteq> []}"
    unfolding eq using gameBatting_keys [of "[]" brows] by simp
  show "distinct (map g_id (map snd ?m2))"
    unfolding eq by (simp add: gameBatting_distinct)
qed


subsection \<open>Sorting\<close>

lemma insertBy_mset: "mset (insertBy gt x ys) = add_mset x (mset ys)"
  by (induction ys) simp_all

lemma sortBy_mset: "mset (sortBy gt xs) = mset xs"
  by (induction xs) (simp_all add: sortBy_def insertBy_mset)

lemma insertBy_sorted:
  assumes "sorted_wrt (\<lambda>a b. \<not> gt a b) ys"
    and trans: "\<And>a b c. a \<in> S \<Longrightarrow> b \<in> S \<Longrightarrow> c \<in> S \<Longrightarrow> \<not> gt a b \<Longrightarrow> \<not> gt b c \<Longrightarrow> \<not> gt a c"
    and asym: "\<And>a b. a \<in> S \<Longrightarrow> b \<in> S \<Longrightarrow> gt a b \<Longrightarrow> \<not> gt b a"
    and "x \<in> S" and "set ys \<subseteq> S"
  shows "sorted_wrt (\<lambda>a b. \<not> gt a b) (insertBy gt x ys)"
  using assms(1,4,5)
proof (induction ys)
  case Nil
  then show ?case by simp
next
  case (Cons y ys)
  show ?case
  proof (cases "gt x y")
    case True
    have "\<not> gt y x"
      using asym [of x y] True Cons.prems by simp
    moreover have "sorted_wrt (\<lambda>a b. \<not> gt a b) (insertBy gt x ys)"
      using Cons by simp
    ultimately show ?thesis
      using True Cons.prems by (auto simp: insertBy_set)
  next
    case False
    have "\<not> gt x z" if "z \<in> set ys" for z
      using trans [of x y z] False that Cons.prems by auto
    then show ?thesis
      using False Cons.prems by auto
  qed
qed

lemma sortBy_sorted:
  assumes trans: "\<And>a b c. a \<in> S \<Longrightarrow> b \<in> S \<Longrightarrow> c \<in> S \<Longrightarrow> \<not> gt a b \<Longrightarrow> \<not> gt b c \<Longrightarrow> \<not> gt a c"
    and asym: "\<And>a b. a \<in> S \<Longrightarrow> b \<in> S \<Longrightarrow> gt a b \<Longrightarrow> \<not> gt b a"
    and "set xs \<subseteq> S"
  shows "sorted_wrt (\<lambda>a b. \<not> gt a b) (sortBy gt xs)"
  using assms(3)
proof (induction xs)
  case Nil
  then show ?case by (simp add: sortBy_def)
next
  case (Cons x xs)
  then have "sorted_wrt (\<lambda>a b. \<not> gt a b) (sortBy gt xs)" and "x \<in> S" and "set (sortBy gt xs) \<subseteq> S"
    by (simp_all add: sortBy_set)
  from insertBy_sorted [OF this(1) trans asym this(2,3)] show ?case
    by (simp add: sortBy_def)
qed

subsection \<open>Outcomes\<close>

lemma dateAfter_parsedTime: "dateAfter env a b \<longleftrightarrow> parsedTime env b < parsedTime env a"
proof -
  obtain x y where "parseDate env a = Some x" "parseDate env b = Some y"
    using parseDate_valid by blast
  then show ?thesis
    by (simp add: dateAfter_def parsedTime_def)
qed

lemma gameResults_length: "length (gameResults w n gs) = length gs"
  by (induction gs arbitrary: w n) (simp_all add: Let_def)

lemma gameResults_fields:
  "map g_id (gameResults w n gs) = map g_id gs"
  "map g_date (gameResults w n gs) = map g_date gs"
  "map g_runsScored (gameResults w n gs) = map g_runsScored gs"
  "map g_runsAllowed (gameResults w n gs) = map g_runsAllowed gs"
  by (induction gs arbitrary: w n; simp add: Let_def game.defs gameResult.defs)+

lemma gameResults_dates:
  "map (\<lambda>x. f (g_date x)) (gameResults w n gs) = map (\<lambda>x. f (g_date x)) gs"
  by (induction gs arbitrary: w n) (simp_all add: Let_def game.defs gameResult.defs)

lemma gameResults_mem:
  "x \<in> set (gameResults w n gs) \<Longrightarrow>
     \<exists>g \<in> set gs. g_id x = g_id g \<and> g_runsScored x = g_runsScored g \<and> g_runsAllowed x = g_runsAllowed g
       \<and> g_result x = (if g_runsScored g > g_runsAllowed g then ''W''
                        else if g_runsScored g < g_runsAllowed g then ''L'' else ''T'')"
proof (induction gs arbitrary: w n)
  case Nil
  then show ?case by simp
next
  case (Cons g gs)
  define result where "result = (if g_runsScored g > g_runsAllowed g then ''W''
                                 else if g_runsScored g < g_runsAllowed g then ''L'' else ''T'')"
  define w' where "w' = (if result = ''W'' then w + 1 else w)"
  obtain b where res: "gameResults w n (g # gs) = b # gameResults w' (n + 1) gs"
    and b: "g_id b = g_id g" "g_runsScored b = g_runsScored g" "g_runsAllowed b = g_runsAllowed g"
      "g_result b = result"
    by (simp add: Let_def result_def w'_def game.defs gameResult.defs)
  from Cons.prems res have "x = b \<or> x \<in> set (gameResults w' (n + 1) gs)"
    by simp
  then show ?case
  proof
    assume "x = b"
    then show ?thesis
      using b by (simp add: result_def)
  next
    assume "x \<in> set (gameResults w' (n + 1) gs)"
    from Cons.IH [OF this] show ?thesis
      by auto
  qed
qed

lemma gameResults_percentage:
  assumes "k < length gs" and "res = gameResults w n gs"
  shows "g_winningPercentage (res ! k) =
           toFixedNumber 3 (safeDiv (ofInt (w + winsThrough res k)) (ofInt (n + int (Suc k))))"
  using assms
proof (induction gs arbitrary: w n k res)
  case Nil
  then show ?case by simp
next
  case (Cons g gs)
  define result where "result = (if g_runsScored g > g_runsAllowed g then ''W''
                                 else if g_runsScored g < g_runsAllowed g then ''L'' else ''T'')"
  define w' where "w' = (if result = ''W'' then w + 1 else w)"
  define rest where "rest = gameResults w' (n + 1) gs"
  obtain b where res: "res = b # rest" and b: "g_result b = result"
    "g_winningPercentage b = toFixedNumber 3 (safeDiv (ofInt w') (ofInt (n + 1)))"
    using Cons.prems(2)
    by (simp add: Let_def result_def w'_def rest_def game.defs gameResult.defs)
  show ?case
  proof (cases k)
    case 0
    then show ?thesis
      by (simp add: res b winsThrough_def w'_def)
  next
    case (Suc k')
    then have "k' < length gs" using Cons.prems(1) by simp
    from Cons.IH [OF this rest_def] show ?thesis
      by (simp add: res Suc winsThrough_def b w'_def add.assoc)
  qed
qed

lemma gameByGameStats_unfold:
  "gameByGameStats env brows prows =
     gameResults 0 0 (sortBy (\<lambda>a b. dateAfter env (g_date a) (g_date b))
       (map snd (foldl gamePitchingStep (foldl gameBattingStep [] brows) prows)))"
proof (cases brows)
  case Nil
  have "foldl gamePitchingStep [] prows = []"
    by (induction prows) (simp_all add: gamePitchingStep_def)
  then show ?thesis
    by (simp add: gameByGameStats_def Nil sortBy_def)
next
  case (Cons r rs)
  then show ?thesis
    by (simp add: gameByGameStats_def Let_def)
qed

lemma gameByGameStats_ids:
  "set (map g_id (gameByGameStats env brows prows)) = {gid \<in> rGameId ` set brows. gid \<noteq> []}"
  "distinct (map g_id (gameByGameStats env brows prows))"
proof -
  let ?gs = "map snd (foldl gamePitchingStep (foldl gameBattingStep [] brows) prows)"
  let ?sorted = "sortBy (\<lambda>a b. dateAfter env (g_date a) (g_date b)) ?gs"
  have m: "mset (map g_id ?sorted) = mset (map g_id ?gs)"
    by (simp only: mset_map sortBy_mset)
  have "set (map g_id ?sorted) = set (map g_id ?gs)"
    using m by (metis set_mset_mset)
  then show "set (map g_id (gameByGameStats env brows prows)) = {gid \<in> rGameId ` set brows. gid \<noteq> []}"
    by (simp only: gameByGameStats_unfold gameResults_fields gamesMap_ids)
  have "distinct (map g_id ?sorted) \<longleftrightarrow> distinct (map g_id ?gs)"
    using m by (rule mset_eq_imp_distinct_iff)
  then show "distinct (map g_id (gameByGameStats env brows prows))"
    by (simp only: gameByGameStats_unfold gameResults_fields gamesMap_ids)
qed

lemma gameByGameStats_entry:
  assumes "x \<in> set (gameByGameStats env brows prows)"
  shows "g_runsScored x = total b_runs (filter (\<lambda>r. rGameId r = g_id x) brows)
       \<and> g_runsAllowed x = total p_r (filter (\<lambda>r. rGameId r = g_id x) prows)
       \<and> g_result x = (if g_runsScored x > g_runsAllowed x then ''W''
                        else if g_runsScored x < g_runsAllowed x then ''L'' else ''T'')"
proof -
  let ?m2 = "foldl gamePitchingStep (foldl gameBattingStep [] brows) prows"
  from assms obtain g where g: "g \<in> set (sortBy (\<lambda>a b. dateAfter env (g_date a) (g_date b)) (map snd ?m2))"
    and x: "g_id x = g_id g" "g_runsScored x = g_runsScored g" "g_runsAllowed x = g_runsAllowed g"
      "g_result x = (if g_runsScored g > g_runsAllowed g then ''W''
                     else if g_runsScored g < g_runsAllowed g then ''L'' else ''T'')"
    unfolding gameByGameStats_unfold using gameResults_mem by blast
  from g obtain gid where "(gid, g) \<in> set ?m2"
    by (auto simp: sortBy_set)
  from gamesMap_entries [OF this] show ?thesis
    by (simp add: x)
qed

lemma scenario_outcomes:
  "map (\<lambda>x. (g_id x, g_runsScored x, g_runsAllowed x, g_result x, g_winningPercentage x))
     (gameByGameStats exampleEnv scenarioBatting scenarioPitching)
   = [(''game1'', 5, 2, ''W'', Num 1), (''game2'', 3, 4, ''L'', Num (1 / 2))]"
  by (simp add: gameByGameStats_def scenarioBatting_def scenarioPitching_def mkBattingRow_def
      mkPitchingRow_def gameBattingStep_def gamePitchingStep_def opponentOf_def arinko_def antos_def
      fumei_def sortBy_def dateAfter_def date_eval str_eval exampleEnv_fields game.defs gameResult.defs
      toFixedNumber_def safeDiv_def ofInt_def fl_eval)

text \<open>
  C6: the outcome series has one entry for each distinct, non-empty game identifier of the
  batting rows; an entry's runs scored are the sum over the batting rows of its game, its
  runs allowed the sum over the pitching rows of its game (pitching rows of other games
  change nothing); the entries are in the order of their parsed dates; each is a win, a loss
  or a tie as its runs scored are more than, less than or equal to its runs allowed; and the
  winning percentage of the game at position \<open>k\<close> is the number of wins among the games up to
  it over the number of those games, rounded to 3 decimals. With runs scored 5 and 3 and runs
  allowed 2 and 4, the first game is a win at 1.000 and the second a loss at 0.500.
\<close>

theorem game_outcomes:
  assumes "res = gameByGameStats env brows prows"
  shows "distinct (map g_id res) \<and> set (map g_id res) = {gid \<in> rGameId ` set brows. gid \<noteq> []}
       \<and> (\<forall>x \<in> set res.
             g_runsScored x = total b_runs (filter (\<lambda>r. rGameId r = g_id x) brows)
           \<and> g_runsAllowed x = total p_r (filter (\<lambda>r. rGameId r = g_id x) prows)
           \<and> g_result x = (if g_runsScored x > g_runsAllowed x then ''W''
                            else if g_runsScored x < g_runsAllowed x then ''L'' else ''T''))
       \<and> sorted (map (\<lambda>x. parsedTime env (g_date x)) res)
       \<and> (\<forall>k < length res.
             g_winningPercentage (res ! k) =
               toFixedNumber 3 (safeDiv (ofInt (winsThrough res k)) (ofInt (int (Suc k)))))
       \<and> map (\<lambda>x. (g_id x, g_runsScored x, g_runsAllowed x, g_result x, g_winningPercentage x))
            (gameByGameStats exampleEnv scenarioBatting scenarioPitching)
          = [(''game1'', 5, 2, ''W'', Num 1), (''game2'', 3, 4, ''L'', Num (1 / 2))]"
proof -
  let ?gt = "\<lambda>a b. dateAfter env (g_date a) (g_date b)"
  let ?gs = "map snd (foldl gamePitchingStep (foldl gameBattingStep [] brows) prows)"
  have res: "res = gameResults 0 0 (sortBy ?gt ?gs)"
    by (simp add: assms gameByGameStats_unfold)
  have "sorted_wrt (\<lambda>a b. \<not> ?gt a b) (sortBy ?gt ?gs)"
    by (rule sortBy_sorted [where S = UNIV]) (auto simp: dateAfter_parsedTime)
  then have "sorted (map (\<lambda>x. parsedTime env (g_date x)) (sortBy ?gt ?gs))"
    by (simp add: sorted_wrt_map dateAfter_parsedTime not_less)
  moreover have "map (\<lambda>x. parsedTime env (g_date x)) res = map (\<lambda>x. parsedTime env (g_date x)) (sortBy ?gt ?gs)"
    by (simp add: res gameResults_dates)
  ultimately have chrono: "sorted (map (\<lambda>x. parsedTime env (g_date x)) res)"
    by simp
  have pct: "g_winningPercentage (res ! k) =
               toFixedNumber 3 (safeDiv (ofInt (winsThrough res k)) (ofInt (int (Suc k))))"
    if "k < length res" for k
  proof -
    from that have "k < length (sortBy ?gt ?gs)"
      by (simp add: res gameResults_length)
    from gameResults_percentage [OF this res] show ?thesis
      by simp
  qed
  show ?thesis
    using gameByGameStats_ids [of env brows prows] gameByGameStats_entry [of _ env brows prows]
      chrono pct scenario_outcomes
    unfolding assms [symmetric] by blast
qed


lemma scenario_results: "map g_result scenarioOutcomes = [''W'', ''L'']"
proof -
  have "map g_result scenarioOutcomes =
        map (\<lambda>t. fst (snd (snd (snd t))))
          (map (\<lambda>x. (g_id x, g_runsScored x, g_runsAllowed x, g_result x, g_winningPercentage x))
             (gameByGameStats exampleEnv scenarioBatting scenarioPitching))"
    by (simp add: scenarioOutcomes_def)
  then show ?thesis
    by (simp only: scenario_outcomes) simp
qed

lemma scenario_wins: "length scenarioOutcomes = 2" "winsThrough scenarioOutcomes (Suc 0) = 1"
proof -
  have "length scenarioOutcomes = length (map g_result scenarioOutcomes)"
    by simp
  then show len: "length scenarioOutcomes = 2"
    by (simp only: scenario_results) simp
  have "winsThrough scenarioOutcomes (Suc 0) = int (length (filter (\<lambda>r. r = ''W'') (map g_result scenarioOutcomes)))"
    using len by (simp add: winsThrough_def filter_map comp_def)
  then show "winsThrough scenarioOutcomes (Suc 0) = 1"
    by (simp add: scenario_results)
qed

theorem game_outcomes_witness:
  "scenarioOutcomes = gameByGameStats exampleEnv scenarioBatting scenarioPitching
   \<and> 1 < length scenarioOutcomes
   \<and> winsThrough scenarioOutcomes 1 = 1
   \<and> g_winningPercentage (scenarioOutcomes ! 1) = toFixedNumber 3 (safeDiv (ofInt 1) (ofInt 2))
   \<and> g_winningPercentage (scenarioOutcomes ! 1) = Num (1 / 2)"
proof -
  have len: "1 < length scenarioOutcomes"
    by (simp add: scenario_wins)
  have "\<forall>k < length scenarioOutcomes.
          g_winningPercentage (scenarioOutcomes ! k) =
            toFixedNumber 3 (safeDiv (ofInt (winsThrough scenarioOutcomes k)) (ofInt (int (Suc k))))"
    using game_outcomes [OF scenarioOutcomes_def] by blast
  with len have "g_winningPercentage (scenarioOutcomes ! 1) =
            toFixedNumber 3 (safeDiv (ofInt (winsThrough scenarioOutcomes 1)) (ofInt (int (Suc 1))))"
    by blast
  then have pct: "g_winningPercentage (scenarioOutcomes ! 1) = toFixedNumber 3 (safeDiv (ofInt 1) (ofInt 2))"
    by (simp add: scenario_wins)
  have "toFixedNumber 3 (safeDiv (ofInt 1) (ofInt 2)) = Num (1 / 2)"
    by (simp add: toFixedNumber_def safeDiv_def ofInt_def fl_eval)
  then show ?thesis
    using len pct by (simp add: scenario_wins scenarioOutcomes_def [symmetric])
qed

text \<open>
  C9: a game identifier of a batting row that no pitching row carries still has its entry
  in the outcome series, with 0 runs allowed: a win when its runs scored are positive, a tie
  when they are 0.
\<close>

theorem unmatched_game_is_kept:
  assumes "r \<in> set brows" and "rGameId r \<noteq> []" and "rGameId r \<notin> rGameId ` set prows"
  shows "\<exists>x \<in> set (gameByGameStats env brows prows).
           g_id x = rGameId r \<and> g_runsAllowed x = 0
           \<and> (0 < g_runsScored x \<longrightarrow> g_result x = ''W'')
           \<and> (g_runsScored x = 0 \<longrightarrow> g_result x = ''T'')"
proof -
  have "rGameId r \<in> set (map g_id (gameByGameStats env brows prows))"
    using assms(1,2) by (simp only: gameByGameStats_ids) auto
  then obtain x where x: "x \<in> set (gameByGameStats env brows prows)" "g_id x = rGameId r"
    by auto
  have "filter (\<lambda>p. rGameId p = rGameId r) prows = []"
    using assms(3) by (force simp: filter_empty_conv)
  with gameByGameStats_entry [OF x(1)] have "g_runsAllowed x = 0"
    and "g_result x = (if g_runsScored x > g_runsAllowed x then ''W''
                       else if g_runsScored x < g_runsAllowed x then ''L'' else ''T'')"
    by (simp_all add: x(2) total_def)
  then show ?thesis
    using x by auto
qed

theorem unmatched_game_is_kept_witness:
  "mkBattingRow ''1'' ''game2'' ''2025-10-08'' 4 1 3 \<in> set scenarioBatting
   \<and> rGameId (mkBattingRow ''1'' ''game2'' ''2025-10-08'' 4 1 3) \<noteq> []
   \<and> rGameId (mkBattingRow ''1'' ''game2'' ''2025-10-08'' 4 1 3) \<notin> rGameId ` set firstGamePitching
   \<and> (\<exists>x. x \<in> set (gameByGameStats exampleEnv scenarioBatting firstGamePitching)
          \<and> g_id x = ''game2'' \<and> g_runsAllowed x = 0 \<and> g_runsScored x = 3 \<and> g_result x = ''W'')"
proof -
  let ?r = "mkBattingRow ''1'' ''game2'' ''2025-10-08'' 4 1 3"
  have h1: "?r \<in> set scenarioBatting"
    by (simp add: scenarioBatting_def)
  have h2: "rGameId ?r \<noteq> []"
    by (simp add: mkBattingRow_def)
  have h3: "rGameId ?r \<notin> rGameId ` set firstGamePitching"
    by (simp add: firstGamePitching_def mkBattingRow_def mkPitchingRow_def)
  from unmatched_game_is_kept [OF h1 h2 h3, of exampleEnv]
  obtain x where x: "x \<in> set (gameByGameStats exampleEnv scenarioBatting firstGamePitching)"
    "g_id x = rGameId ?r" "g_runsAllowed x = 0" "0 < g_runsScored x \<longrightarrow> g_result x = ''W''"
    by blast
  have "g_runsScored x = total b_runs (filter (\<lambda>r. rGameId r = g_id x) scenarioBatting)"
    using gameByGameStats_entry [OF x(1)] by simp
  then have "g_runsScored x = 3"
    by (simp add: x(2) scenarioBatting_def mkBattingRow_def total_def)
  with x have "x \<in> set (gameByGameStats exampleEnv scenarioBatting firstGamePitching)
          \<and> g_id x = ''game2'' \<and> g_runsAllowed x = 0 \<and> g_runsScored x = 3 \<and> g_result x = ''W''"
    by (simp add: mkBattingRow_def)
  then show ?thesis
    using h1 h2 h3 by blast
qed

subsection \<open>Rounding\<close>

lemma pow2_powi: "pow2 k = 2 powi k"
  by (simp add: pow2_def power_int_def inverse_eq_divide power_one_over)

lemma pow2_pos: "0 < pow2 k"
  by (simp add: pow2_def)

lemma pow2_add: "pow2 (a + b) = pow2 a * pow2 b"
  by (simp add: pow2_powi power_int_add)

lemma pow2_mono: "a \<le> b \<Longrightarrow> pow2 a \<le> pow2 b"
  by (simp add: pow2_powi power_int_increasing)

lemma pow2_less_cancel: "pow2 a < pow2 b \<Longrightarrow> a < b"
  using pow2_mono [of b a] by (cases "a < b") simp_all

lemma pow2_nat: "0 \<le> k \<Longrightarrow> pow2 k = 2 ^ nat k"
  by (simp add: pow2_def)

lemma ilog2_lower: "0 < x \<Longrightarrow> pow2 (ilog2 x) \<le> x"
proof (cases "1 \<le> x")
  case True
  then have m: "0 < \<lfloor>x\<rfloor>" by simp
  have "0 \<le> bitlen \<lfloor>x\<rfloor> - 1"
    using m by (simp add: bitlen_alt_def)
  then have "pow2 (bitlen \<lfloor>x\<rfloor> - 1) = 2 ^ nat (bitlen \<lfloor>x\<rfloor> - 1)"
    by (rule pow2_nat)
  also have "\<dots> = of_int (2 ^ nat (bitlen \<lfloor>x\<rfloor> - 1))"
    by simp
  also have "\<dots> \<le> of_int \<lfloor>x\<rfloor>"
    using bitlen_bounds [OF m] by (simp only: of_int_le_iff)
  also have "\<dots> \<le> x"
    by simp
  finally show ?thesis
    using True by (simp add: ilog2_def)
next
  case False
  assume pos: "0 < x"
  let ?m = "\<lceil>1 / x\<rceil> - 1"
  have "1 < 1 / x"
    using False pos by simp
  then have m: "0 < ?m"
    by (simp add: less_ceiling_iff)
  then have k: "0 < bitlen ?m"
    by (simp add: bitlen_alt_def)
  have "?m < 2 ^ nat (bitlen ?m)"
    using bitlen_bounds [OF m] by simp
  then have "\<lceil>1 / x\<rceil> \<le> 2 ^ nat (bitlen ?m)"
    by simp
  then have "1 / x \<le> of_int (2 ^ nat (bitlen ?m))"
    by (simp only: ceiling_le_iff [symmetric])
  then have "1 / x \<le> 2 ^ nat (bitlen ?m)"
    by simp
  then have "1 / 2 ^ nat (bitlen ?m) \<le> x"
    using pos by (simp add: field_simps)
  moreover have "pow2 (- bitlen ?m) = 1 / 2 ^ nat (bitlen ?m)"
    using k by (simp add: pow2_def)
  ultimately show ?thesis
    using False by (simp add: ilog2_def)
qed

lemma ilog2_upper: "0 < x \<Longrightarrow> x < pow2 (ilog2 x + 1)"
proof (cases "1 \<le> x")
  case True
  then have m: "0 < \<lfloor>x\<rfloor>" by simp
  have b: "0 \<le> bitlen \<lfloor>x\<rfloor>"
    by (rule bitlen_nonneg)
  have "\<lfloor>x\<rfloor> < 2 ^ nat (bitlen \<lfloor>x\<rfloor>)"
    using bitlen_bounds [OF m] by simp
  then have "\<lfloor>x\<rfloor> + 1 \<le> 2 ^ nat (bitlen \<lfloor>x\<rfloor>)"
    by simp
  then have "of_int (\<lfloor>x\<rfloor> + 1) \<le> (of_int (2 ^ nat (bitlen \<lfloor>x\<rfloor>)) :: rat)"
    by (simp only: of_int_le_iff)
  moreover have "x < of_int (\<lfloor>x\<rfloor> + 1)"
    by linarith
  ultimately have "x < 2 ^ nat (bitlen \<lfloor>x\<rfloor>)"
    by simp
  then show ?thesis
    using True b by (simp add: ilog2_def pow2_nat)
next
  case False
  assume pos: "0 < x"
  let ?m = "\<lceil>1 / x\<rceil> - 1"
  have "1 < 1 / x"
    using False pos by simp
  then have m: "0 < ?m"
    by (simp add: less_ceiling_iff)
  then have k: "0 < bitlen ?m"
    by (simp add: bitlen_alt_def)
  have "2 ^ nat (bitlen ?m - 1) \<le> ?m"
    using bitlen_bounds [OF m] by simp
  then have "(of_int (2 ^ nat (bitlen ?m - 1)) :: rat) \<le> of_int ?m"
    by (simp only: of_int_le_iff)
  moreover have "of_int ?m < 1 / x"
    by simp linarith
  ultimately have "2 ^ nat (bitlen ?m - 1) < 1 / x"
    by simp
  then have "x < 1 / 2 ^ nat (bitlen ?m - 1)"
    using pos by (simp add: field_simps)
  moreover have "pow2 (- bitlen ?m + 1) = 1 / 2 ^ nat (bitlen ?m - 1)"
  proof (cases "bitlen ?m = 1")
    case True
    then show ?thesis by (simp add: pow2_def)
  next
    case False
    then have "nat (- (- bitlen ?m + 1)) = nat (bitlen ?m - 1)" "\<not> 0 \<le> - bitlen ?m + 1"
      using k by simp_all
    then show ?thesis
      by (simp add: pow2_def)
  qed
  ultimately show ?thesis
    using False by (simp add: ilog2_def)
qed

lemma roundHalfEven_error: "\<bar>of_int (roundHalfEven q) - q\<bar> \<le> 1 / 2"
proof -
  have "0 \<le> q - of_int \<lfloor>q\<rfloor>" "q - of_int \<lfloor>q\<rfloor> < 1"
    by linarith+
  then show ?thesis
    by (auto simp: roundHalfEven_def Let_def abs_le_iff)
qed

lemma roundHalfEven_nonneg: "0 \<le> q \<Longrightarrow> 0 \<le> roundHalfEven q"
  by (auto simp: roundHalfEven_def Let_def)




text \<open>The unit in the last place used for rounding \<open>x\<close>.\<close>

lemma fl_core:
  assumes "x \<noteq> 0"
  obtains e r where "e = max (ilog2 \<bar>x\<bar>) (- 1022)"
    and "r = of_int (roundHalfEven (x / pow2 (e - 52))) * pow2 (e - 52)"
    and "fl x = (if 2 ^ 1024 \<le> \<bar>r\<bar> then (if 0 < x then PInf else NInf) else Num r)"
    and "\<bar>r - x\<bar> \<le> pow2 (e - 52) / 2"
proof -
  define e where "e = max (ilog2 \<bar>x\<bar>) (- 1022)"
  define u where "u = pow2 (e - 52)"
  define r where "r = of_int (roundHalfEven (x / u)) * u"
  have u: "0 < u"
    by (simp add: u_def pow2_pos)
  have "r - x = (of_int (roundHalfEven (x / u)) - x / u) * u"
    using u by (simp add: r_def field_simps)
  then have "\<bar>r - x\<bar> = \<bar>of_int (roundHalfEven (x / u)) - x / u\<bar> * u"
    using u by (simp add: abs_mult)
  also have "\<dots> \<le> 1 / 2 * u"
    using u roundHalfEven_error [of "x / u"] by (intro mult_right_mono) simp_all
  finally have err: "\<bar>r - x\<bar> \<le> pow2 (e - 52) / 2"
    by (simp add: u_def)
  have "fl x = (if 2 ^ 1024 \<le> \<bar>r\<bar> then (if 0 < x then PInf else NInf) else Num r)"
    using assms by (simp add: fl_def Let_def e_def u_def r_def)
  then show ?thesis
    using that [of e r] err by (simp add: e_def r_def u_def)
qed

lemma ulp_bound:
  assumes "x \<noteq> 0" and "e = max (ilog2 \<bar>x\<bar>) (- 1022)"
  shows "pow2 (e - 52) \<le> max (\<bar>x\<bar> * pow2 (- 52)) (pow2 (- 1074))"
proof (cases "- 1022 \<le> ilog2 \<bar>x\<bar>")
  case True
  then have "pow2 (e - 52) = pow2 (ilog2 \<bar>x\<bar>) * pow2 (- 52)"
    using pow2_add [of "ilog2 \<bar>x\<bar>" "- 52"] by (simp add: assms(2) max_def)
  also have "\<dots> \<le> \<bar>x\<bar> * pow2 (- 52)"
    using ilog2_lower [of "\<bar>x\<bar>"] assms(1) pow2_pos [of "- 52"] by (intro mult_right_mono) simp_all
  finally show ?thesis
    by simp
next
  case False
  then show ?thesis
    by (simp add: assms(2) max_def)
qed

lemma fl_finite:
  assumes "\<bar>x\<bar> \<le> 2 ^ 1023"
  shows "\<exists>r. fl x = Num r \<and> \<bar>r - x\<bar> \<le> max (\<bar>x\<bar> * pow2 (- 52)) (pow2 (- 1074)) / 2"
proof (cases "x = 0")
  case True
  then show ?thesis
    by (simp add: fl_def)
next
  case False
  from fl_core [OF False] obtain e r where e: "e = max (ilog2 \<bar>x\<bar>) (- 1022)"
    and fl: "fl x = (if 2 ^ 1024 \<le> \<bar>r\<bar> then (if 0 < x then PInf else NInf) else Num r)"
    and err: "\<bar>r - x\<bar> \<le> pow2 (e - 52) / 2"
    by blast
  have ulp: "pow2 (e - 52) \<le> max (\<bar>x\<bar> * pow2 (- 52)) (pow2 (- 1074))"
    by (rule ulp_bound [OF False e])
  define A :: rat where "A = 2 ^ 1023"
  define B :: rat where "B = 2 ^ 971"
  have B: "A + B / 2 < (2 ^ 1024 :: rat)"
    by (simp add: A_def B_def)
  have A: "\<bar>x\<bar> \<le> A"
    using assms by (simp add: A_def)
  have "\<bar>x\<bar> * pow2 (- 52) \<le> 2 ^ 1023 * pow2 (- 52)"
    using assms pow2_pos [of "- 52"] by (intro mult_right_mono) simp_all
  also have "\<dots> = B"
    by (simp add: pow2_def B_def)
  finally have "\<bar>x\<bar> * pow2 (- 52) \<le> B" .
  moreover have "pow2 (- 1074) \<le> B"
    by (simp add: pow2_def B_def)
  ultimately have "max (\<bar>x\<bar> * pow2 (- 52)) (pow2 (- 1074)) \<le> B"
    by simp
  with ulp have "pow2 (e - 52) \<le> B"
    by (rule order_trans)
  with err have "\<bar>r - x\<bar> \<le> B / 2"
    by linarith
  then have "\<bar>r\<bar> \<le> \<bar>x\<bar> + B / 2"
    by linarith
  with A B have "\<bar>r\<bar> < 2 ^ 1024"
    by linarith
  then have "\<not> 2 ^ 1024 \<le> \<bar>r\<bar>"
    by (simp only: not_le)
  then have "fl x = Num r"
    using fl by simp
  moreover have "\<bar>r - x\<bar> \<le> max (\<bar>x\<bar> * pow2 (- 52)) (pow2 (- 1074)) / 2"
    using err ulp by linarith
  ultimately show ?thesis
    by blast
qed

lemma fl_magnitude:
  assumes "\<bar>x\<bar> \<le> 2 ^ 1023" and "fl x = Num r"
  shows "\<bar>r\<bar> \<le> 2 * \<bar>x\<bar> + 1"
proof -
  from fl_finite [OF assms(1)] assms(2)
  have "\<bar>r - x\<bar> \<le> max (\<bar>x\<bar> * pow2 (- 52)) (pow2 (- 1074)) / 2"
    by simp
  moreover have "\<bar>x\<bar> * pow2 (- 52) \<le> \<bar>x\<bar> * 1"
    by (intro mult_left_mono) (simp_all add: pow2_def)
  moreover have "pow2 (- 1074) \<le> 1"
    by (simp add: pow2_def)
  ultimately have "\<bar>r - x\<bar> \<le> max \<bar>x\<bar> 1 / 2"
    by (auto simp add: max_def split: if_splits)
  then have "\<bar>r - x\<bar> \<le> (\<bar>x\<bar> + 1) / 2"
    by (auto simp add: max_def split: if_splits)
  then show ?thesis
    by (auto simp add: abs_if split: if_splits)
qed

subsection \<open>Ranking order\<close>













lemma exampleBatters:
  "map (\<lambda>p. (bs_name p, bs_hr p, bs_pa p)) (aggregatedBatting [fiveHomers, tenHomers])
     = [(''a'', 5, 20), (''b'', 10, 40)]"
  by (simp add: aggregatedBatting_def battingStep_def playerKey_def fiveHomers_def tenHomers_def
      mkBattingRow_def objectValues_def objectEntries_def isArrayIndex_def isDigit_def
      battingSummaryOf_def battingAdd_def battingInit_def sortBy_def battingStats.defs battingSummary.defs
      toFixedNumber_def safeDiv_def ofInt_def jssub_def fl_eval)














subsection \<open>Safe division\<close>

lemma fl_lower:
  assumes "fl x = Num d" and "1 / 3 \<le> \<bar>x\<bar>"
  shows "\<bar>x\<bar> / 2 \<le> \<bar>d\<bar>"
proof -
  have nz: "x \<noteq> 0"
    using assms(2) by auto
  from fl_core [OF nz] obtain e r where e: "e = max (ilog2 \<bar>x\<bar>) (- 1022)"
    and fl: "fl x = (if 2 ^ 1024 \<le> \<bar>r\<bar> then (if 0 < x then PInf else NInf) else Num r)"
    and err: "\<bar>r - x\<bar> \<le> pow2 (e - 52) / 2"
    by blast
  from fl assms(1) have d: "d = r"
    by (simp split: if_splits)
  have "pow2 (- 1074) \<le> 1 / 3 * pow2 (- 52)"
    by (simp add: pow2_def)
  also have "\<dots> \<le> \<bar>x\<bar> * pow2 (- 52)"
    using assms(2) pow2_pos [of "- 52"] by (intro mult_right_mono) simp_all
  finally have "max (\<bar>x\<bar> * pow2 (- 52)) (pow2 (- 1074)) = \<bar>x\<bar> * pow2 (- 52)"
    by simp
  with ulp_bound [OF nz e] have "pow2 (e - 52) \<le> \<bar>x\<bar> * pow2 (- 52)"
    by simp
  also have "\<dots> \<le> \<bar>x\<bar> * 1"
    by (intro mult_left_mono) (simp_all add: pow2_def)
  finally have "pow2 (e - 52) \<le> \<bar>x\<bar>"
    by simp
  with err have "\<bar>r - x\<bar> \<le> \<bar>x\<bar> / 2"
    by linarith
  then show ?thesis
    unfolding d by (auto simp add: abs_if split: if_splits)
qed

lemma toFixedNumber_finite:
  assumes "isFiniteNum x"
  shows "isFiniteNum (toFixedNumber f x)"
proof -
  from assms obtain r where x: "x = Num r"
    by (cases x) (simp_all add: isFiniteNum_def)
  show ?thesis
  proof (cases "10 ^ 21 \<le> \<bar>r\<bar>")
    case True
    then show ?thesis
      by (simp add: x toFixedNumber_def isFiniteNum_def)
  next
    case False
    define n where "n = \<lfloor>\<bar>r\<bar> * 10 ^ f + 1 / 2\<rfloor>"
    define v where "v = (if r < 0 then - 1 else 1) * of_int n / (10 ^ f :: rat)"
    have p: "(0::rat) < 10 ^ f"
      by simp
    have "0 \<le> n"
      by (simp add: n_def)
    moreover have "of_int n \<le> \<bar>r\<bar> * 10 ^ f + 1 / 2"
      unfolding n_def by (rule of_int_floor_le)
    ultimately have "\<bar>v\<bar> \<le> (\<bar>r\<bar> * 10 ^ f + 1 / 2) / 10 ^ f"
      using p by (simp add: v_def abs_mult divide_right_mono)
    also have "\<dots> = \<bar>r\<bar> + 1 / 2 / 10 ^ f"
      using p by (simp add: field_simps)
    also have "\<dots> \<le> \<bar>r\<bar> + 1"
    proof -
      have "(1::rat) \<le> 10 ^ f"
        by simp
      then have "(1::rat) \<le> 2 * 10 ^ f"
        by linarith
      then have "1 / 2 / (10 ^ f :: rat) \<le> 1"
        by (simp add: field_simps)
      then show ?thesis
        by simp
    qed
    also have "\<dots> \<le> 10 ^ 21 + 1"
      using False by simp
    also have "\<dots> \<le> (2 ^ 1023 :: rat)"
      by simp
    finally obtain d where "fl v = Num d"
      using fl_finite [of v] by blast
    then show ?thesis
      using False by (simp add: x toFixedNumber_def Let_def n_def v_def isFiniteNum_def)
  qed
qed


text \<open>Results of bounded size.\<close>

lemma fl_small:
  assumes "\<bar>x\<bar> \<le> 2 ^ n" and "n \<le> 1000"
  shows "\<exists>r. fl x = Num r \<and> \<bar>r\<bar> \<le> 2 ^ (n + 2)"
proof -
  have "(2::rat) ^ n \<le> 2 ^ 1023"
    using assms(2) by (intro power_increasing) simp_all
  with assms(1) have x: "\<bar>x\<bar> \<le> 2 ^ 1023"
    by (rule order_trans)
  then obtain r where r: "fl x = Num r"
    using fl_finite by blast
  have "(1::rat) \<le> 2 ^ n"
    by simp
  moreover have "\<bar>r\<bar> \<le> 2 * \<bar>x\<bar> + 1"
    by (rule fl_magnitude [OF x r])
  ultimately have "\<bar>r\<bar> \<le> 4 * 2 ^ n"
    using assms(1) by linarith
  then show ?thesis
    using r by (simp add: power_add mult.commute)
qed

lemma quotient_of_counts:
  assumes "y \<noteq> 0"
  shows "\<bar>(of_int x :: rat) / of_int y\<bar> \<le> \<bar>of_int x\<bar>"
proof -
  have "(1::rat) \<le> \<bar>of_int y\<bar>"
    using assms by (simp flip: of_int_abs)
  then have "\<bar>of_int x :: rat\<bar> / \<bar>of_int y\<bar> \<le> \<bar>of_int x\<bar> / 1"
    by (intro divide_left_mono) simp_all
  then show ?thesis
    by simp
qed

lemma safeDiv_counts:
  assumes "\<bar>x\<bar> \<le> 2 ^ 60"
  shows "\<exists>r. safeDiv (ofInt x) (ofInt y) = Num r \<and> \<bar>r\<bar> \<le> 2 ^ 62"
proof (cases "y = 0")
  case True
  then show ?thesis
    by (simp add: safeDiv_def ofInt_def)
next
  case False
  have "\<bar>(of_int x :: rat)\<bar> \<le> 2 ^ 60"
    using assms by (simp flip: of_int_abs add: of_int_le_numeral_power_cancel_iff)
  with quotient_of_counts [OF False, of x] have "\<bar>(of_int x :: rat) / of_int y\<bar> \<le> 2 ^ 60"
    by (rule order_trans)
  from fl_small [OF this] show ?thesis
    using False by (simp add: safeDiv_def ofInt_def)
qed

lemma safeDiv_within:
  assumes "\<bar>x\<bar> \<le> \<bar>y\<bar>"
  shows "isFiniteNum (safeDiv (ofInt x) (ofInt y))"
proof (cases "y = 0")
  case True
  then show ?thesis
    by (simp add: safeDiv_def ofInt_def isFiniteNum_def)
next
  case False
  have "\<bar>(of_int x :: rat)\<bar> \<le> \<bar>of_int y\<bar>"
    using assms by (simp flip: of_int_abs)
  moreover have "(0::rat) < \<bar>of_int y\<bar>"
    using False by simp
  ultimately have "\<bar>(of_int x :: rat) / of_int y\<bar> \<le> 2 ^ 0"
    by (simp add: field_simps)
  from fl_small [OF this] show ?thesis
    using False by (auto simp: safeDiv_def ofInt_def isFiniteNum_def)
qed

lemma innings_finite:
  assumes "\<bar>y\<bar> \<le> 2 ^ 60"
  shows "\<exists>r. jsdiv (ofInt y) (ofInt 3) = Num r \<and> \<bar>r\<bar> \<le> 2 ^ 62"
proof -
  have "\<bar>(of_int y :: rat)\<bar> \<le> 2 ^ 60"
    using assms by (simp flip: of_int_abs add: of_int_le_numeral_power_cancel_iff)
  then have "\<bar>(of_int y :: rat) / 3\<bar> \<le> 2 ^ 60"
    by simp
  from fl_small [OF this] show ?thesis
    by (simp add: ofInt_def)
qed

lemma safeDiv_innings:
  assumes "\<bar>x\<bar> \<le> 2 ^ 60"
  shows "\<exists>r. safeDiv (ofInt x) (jsdiv (ofInt y) (ofInt 3)) = Num r \<and> \<bar>r\<bar> \<le> 2 ^ 65"
proof -
  have inn: "jsdiv (ofInt y) (ofInt 3) = fl (of_int y / 3)"
    by (simp add: ofInt_def)
  have x: "\<bar>(of_int x :: rat)\<bar> \<le> 2 ^ 60"
    using assms by (simp flip: of_int_abs add: of_int_le_numeral_power_cancel_iff)
  show ?thesis
  proof (cases "fl (of_int y / 3)")
    case (Num d)
    show ?thesis
    proof (cases "d = 0")
      case True
      then show ?thesis
        by (simp add: inn Num safeDiv_def)
    next
      case False
      then have "y \<noteq> 0"
        using Num by (auto simp: fl_def)
      then have "(1::rat) \<le> \<bar>of_int y\<bar>"
        by (simp flip: of_int_abs)
      then have "1 / 3 \<le> \<bar>(of_int y :: rat) / 3\<bar>"
        by simp
      from fl_lower [OF Num this] this have d: "1 / 6 \<le> \<bar>d\<bar>"
        by linarith
      have "\<bar>of_int x / d\<bar> = \<bar>of_int x :: rat\<bar> / \<bar>d\<bar>"
        by simp
      also have "\<dots> \<le> \<bar>of_int x\<bar> / (1 / 6)"
        using d by (intro divide_left_mono) simp_all
      also have "\<dots> \<le> 2 ^ 63"
        using x by simp
      finally have "\<bar>of_int x / d\<bar> \<le> 2 ^ 63" .
      from fl_small [OF this] show ?thesis
        using False by (simp add: inn Num safeDiv_def ofInt_def)
    qed
  next
    case PInf
    then show ?thesis
      by (simp add: inn safeDiv_def ofInt_def)
  next
    case NInf
    then show ?thesis
      by (simp add: inn safeDiv_def ofInt_def)
  next
    case NaN
    then show ?thesis
      using fl_not_NaN by simp
  qed
qed

lemma jsadd_small:
  assumes "x = Num a \<and> \<bar>a\<bar> \<le> 2 ^ 65" and "y = Num b \<and> \<bar>b\<bar> \<le> 2 ^ 65"
  shows "isFiniteNum (jsadd x y)" and "isFiniteNum (jssub x y)"
proof -
  have "\<bar>a + b\<bar> \<le> 2 ^ 66" "\<bar>a + - b\<bar> \<le> 2 ^ 66"
    using assms by (auto simp: abs_if split: if_splits)
  from fl_small [OF this(1)] fl_small [OF this(2)]
  show "isFiniteNum (jsadd x y)" and "isFiniteNum (jssub x y)"
    using assms by (auto simp: jssub_def isFiniteNum_def)
qed

lemma jsmul_small:
  assumes "x = Num a \<and> \<bar>a\<bar> \<le> 2 ^ 65"
  shows "isFiniteNum (jsmul x (Num 100))"
proof -
  have "\<bar>a * 100\<bar> \<le> 2 ^ 72"
    using assms by (simp add: abs_mult)
  from fl_small [OF this] show ?thesis
    using assms by (auto simp: isFiniteNum_def)
qed

lemma rate_quotient:
  assumes "\<bar>x\<bar> \<le> 2 ^ 60"
  shows "isFiniteNum (toFixedNumber k (safeDiv (ofInt x) (ofInt y)))"
proof -
  from safeDiv_counts [OF assms, of y] have "isFiniteNum (safeDiv (ofInt x) (ofInt y))"
    by (auto simp: isFiniteNum_def)
  then show ?thesis
    by (rule toFixedNumber_finite)
qed

lemma rate_per_inning:
  assumes "\<bar>x\<bar> \<le> 2 ^ 60"
  shows "isFiniteNum (toFixedNumber k (safeDiv (ofInt x) (jsdiv (ofInt y) (ofInt 3))))"
proof -
  from safeDiv_innings [OF assms, of y]
  have "isFiniteNum (safeDiv (ofInt x) (jsdiv (ofInt y) (ofInt 3)))"
    by (auto simp: isFiniteNum_def)
  then show ?thesis
    by (rule toFixedNumber_finite)
qed

lemma rate_sum:
  assumes "\<bar>x\<bar> \<le> 2 ^ 60" and "\<bar>x'\<bar> \<le> 2 ^ 60"
  shows "isFiniteNum (toFixedNumber k (jsadd (safeDiv (ofInt x) (ofInt y)) (safeDiv (ofInt x') (ofInt y'))))"
    and "isFiniteNum (toFixedNumber k (jssub (safeDiv (ofInt x) (ofInt y)) (safeDiv (ofInt x') (ofInt y'))))"
proof -
  from safeDiv_counts [OF assms(1), of y] safeDiv_counts [OF assms(2), of y']
  obtain a b where a: "safeDiv (ofInt x) (ofInt y) = Num a \<and> \<bar>a\<bar> \<le> 2 ^ 65"
    and b: "safeDiv (ofInt x') (ofInt y') = Num b \<and> \<bar>b\<bar> \<le> 2 ^ 65"
    by force
  from jsadd_small [OF a b]
  show "isFiniteNum (toFixedNumber k (jsadd (safeDiv (ofInt x) (ofInt y)) (safeDiv (ofInt x') (ofInt y'))))"
    and "isFiniteNum (toFixedNumber k (jssub (safeDiv (ofInt x) (ofInt y)) (safeDiv (ofInt x') (ofInt y'))))"
    by (simp_all add: toFixedNumber_finite)
qed

lemma rate_percent:
  assumes "\<bar>x\<bar> \<le> 2 ^ 60"
  shows "isFiniteNum (toFixedNumber k (jsmul (safeDiv (ofInt x) (ofInt y)) (Num 100)))"
proof -
  from safeDiv_counts [OF assms, of y]
  obtain a where a: "safeDiv (ofInt x) (ofInt y) = Num a \<and> \<bar>a\<bar> \<le> 2 ^ 65"
    by force
  from jsmul_small [OF a] show ?thesis
    by (simp add: toFixedNumber_finite)
qed

lemma rate_innings:
  assumes "\<bar>y\<bar> \<le> 2 ^ 60"
  shows "isFiniteNum (jsdiv (ofInt y) (ofInt 3))" and "isFiniteNum (toFixedNumber k (jsdiv (ofInt y) (ofInt 3)))"
proof -
  from innings_finite [OF assms] show "isFiniteNum (jsdiv (ofInt y) (ofInt 3))"
    by (auto simp: isFiniteNum_def)
  then show "isFiniteNum (toFixedNumber k (jsdiv (ofInt y) (ofInt 3)))"
    by (rule toFixedNumber_finite)
qed

lemma battingSummaryOf_other_rates:
  "bs_bbK (battingSummaryOf st) = toFixedNumber 2 (safeDiv (ofInt (bs_bb st + bs_hbp st)) (ofInt (bs_so st)))"
  "bs_isoD (battingSummaryOf st) =
     toFixedNumber 3
       (jssub (safeDiv (ofInt (bs_h st + bs_bb st + bs_hbp st))
                       (ofInt (bs_ab st + bs_bb st + bs_hbp st + bs_sf st)))
              (safeDiv (ofInt (bs_h st)) (ofInt (bs_ab st))))"
  by (simp_all add: battingSummaryOf_def Let_def battingStats.defs battingSummary.defs)

lemma battingSummaryOf_finite:
  assumes "list_all safeCount [bs_ab st, bs_h st, bs_bb st, bs_hbp st, bs_sf st, bs_so st,
                               bs_doubles st, bs_triples st, bs_hr st]"
  shows "list_all isFiniteNum
           [bs_avg (battingSummaryOf st), bs_obp (battingSummaryOf st), bs_slg (battingSummaryOf st),
            bs_ops (battingSummaryOf st), bs_bbK (battingSummaryOf st), bs_isoD (battingSummaryOf st)]"
  unfolding list.pred_inject battingSummaryOf_rates battingSummaryOf_other_rates
  by (intro conjI TrueI rate_quotient rate_sum) (use assms in \<open>auto simp: safeCount_def abs_le_iff\<close>)

lemma pitchingSummaryOf_other_rates:
  "ps_whip (pitchingSummaryOf st) =
     toFixedNumber 2 (safeDiv (ofInt (ps_bb st + ps_hbp st + ps_h st)) (jsdiv (ofInt (ps_outs st)) (ofInt 3)))"
  "ps_kbb (pitchingSummaryOf st) = toFixedNumber 2 (safeDiv (ofInt (ps_so st)) (ofInt (ps_bb st)))"
  "ps_inningsVal (pitchingSummaryOf st) = jsdiv (ofInt (ps_outs st)) (ofInt 3)"
  "ps_bb (pitchingSummaryOf st) = ps_bb st" "ps_hbp (pitchingSummaryOf st) = ps_hbp st"
  "ps_h (pitchingSummaryOf st) = ps_h st" "ps_so (pitchingSummaryOf st) = ps_so st"
  by (simp_all add: pitchingSummaryOf_def Let_def pitchingStats.defs pitchingSummary.defs)

lemma pitchingSummaryOf_finite:
  assumes "list_all safeCount [ps_outs st, ps_er st, ps_bb st, ps_hbp st, ps_h st, ps_so st]"
  shows "list_all isFiniteNum
           [ps_era (pitchingSummaryOf st), ps_whip (pitchingSummaryOf st), ps_kbb (pitchingSummaryOf st),
            ps_inningsVal (pitchingSummaryOf st)]"
  unfolding list.pred_inject pitchingSummaryOf_fields pitchingSummaryOf_other_rates
  by (intro conjI TrueI rate_quotient rate_per_inning rate_innings)
    (use assms in \<open>auto simp: safeCount_def abs_le_iff\<close>)

lemma battingPeriodResultOf_rates:
  "bp_avg (battingPeriodResultOf m) = toFixedNumber 3 (safeDiv (ofInt (bp_h m)) (ofInt (bp_ab m)))"
  "bp_ops (battingPeriodResultOf m) =
     toFixedNumber 3
       (jsadd (safeDiv (ofInt (bp_h m + bp_bb m + bp_hbp m)) (ofInt (bp_ab m + bp_bb m + bp_hbp m + bp_sf m)))
              (safeDiv (ofInt ((bp_h m - bp_doubles m - bp_triples m - bp_hr m)
                               + bp_doubles m * 2 + bp_triples m * 3 + bp_hr m * 4)) (ofInt (bp_ab m))))"
  "bp_bbRate (battingPeriodResultOf m) =
     toFixedNumber 1 (jsmul (safeDiv (ofInt (bp_bb m + bp_hbp m)) (ofInt (bp_ab m + bp_bb m + bp_hbp m + bp_sf m)))
                            (Num 100))"
  "bp_soRate (battingPeriodResultOf m) =
     toFixedNumber 1 (jsmul (safeDiv (ofInt (bp_so m)) (ofInt (bp_ab m + bp_bb m + bp_hbp m + bp_sf m)))
                            (Num 100))"
  "bp_bb (battingPeriodResultOf m) = bp_bb m" "bp_hbp (battingPeriodResultOf m) = bp_hbp m"
  "bp_sf (battingPeriodResultOf m) = bp_sf m" "bp_so (battingPeriodResultOf m) = bp_so m"
  "bp_doubles (battingPeriodResultOf m) = bp_doubles m" "bp_triples (battingPeriodResultOf m) = bp_triples m"
  "bp_hr (battingPeriodResultOf m) = bp_hr m"
  by (simp_all add: battingPeriodResultOf_def Let_def battingPeriod.defs battingPeriodResult.defs)

lemma battingPeriodResultOf_finite:
  assumes "list_all safeCount [bp_ab m, bp_h m, bp_bb m, bp_hbp m, bp_sf m, bp_so m,
                               bp_doubles m, bp_triples m, bp_hr m]"
  shows "list_all isFiniteNum
           [bp_avg (battingPeriodResultOf m), bp_ops (battingPeriodResultOf m),
            bp_bbRate (battingPeriodResultOf m), bp_soRate (battingPeriodResultOf m)]"
  unfolding list.pred_inject battingPeriodResultOf_rates
  by (intro conjI TrueI rate_quotient rate_sum rate_percent)
    (use assms in \<open>auto simp: safeCount_def abs_le_iff\<close>)

lemma pitchingPeriodResultOf_rates:
  "pp_era (pitchingPeriodResultOf m) =
     toFixedNumber 2 (safeDiv (ofInt (pp_er m * 7)) (jsdiv (ofInt (pp_outs m)) (ofInt 3)))"
  "pp_whip (pitchingPeriodResultOf m) =
     toFixedNumber 2 (safeDiv (ofInt (pp_h m + pp_bb m + pp_hbp m)) (jsdiv (ofInt (pp_outs m)) (ofInt 3)))"
  "pp_kPer7 (pitchingPeriodResultOf m) =
     toFixedNumber 2 (safeDiv (ofInt (pp_so m * 7)) (jsdiv (ofInt (pp_outs m)) (ofInt 3)))"
  "pp_bbPer7 (pitchingPeriodResultOf m) =
     toFixedNumber 2 (safeDiv (ofInt ((pp_bb m + pp_hbp m) * 7)) (jsdiv (ofInt (pp_outs m)) (ofInt 3)))"
  "pp_strikeRate (pitchingPeriodResultOf m) =
     toFixedNumber 1 (jsmul (safeDiv (ofInt (pp_s m)) (ofInt (pp_pitches m))) (Num 100))"
  "pp_outs (pitchingPeriodResultOf m) = pp_outs m" "pp_er (pitchingPeriodResultOf m) = pp_er m"
  "pp_h (pitchingPeriodResultOf m) = pp_h m" "pp_bb (pitchingPeriodResultOf m) = pp_bb m"
  "pp_hbp (pitchingPeriodResultOf m) = pp_hbp m" "pp_so (pitchingPeriodResultOf m) = pp_so m"
  "pp_s (pitchingPeriodResultOf m) = pp_s m" "pp_pitches (pitchingPeriodResultOf m) = pp_pitches m"
  by (simp_all add: pitchingPeriodResultOf_def Let_def pitchingPeriod.defs pitchingPeriodResult.defs)

lemma pitchingPeriodResultOf_finite:
  assumes "list_all safeCount [pp_outs m, pp_er m, pp_h m, pp_bb m, pp_hbp m, pp_so m, pp_s m]"
  shows "list_all isFiniteNum
           [pp_era (pitchingPeriodResultOf m), pp_whip (pitchingPeriodResultOf m),
            pp_kPer7 (pitchingPeriodResultOf m), pp_bbPer7 (pitchingPeriodResultOf m),
            pp_strikeRate (pitchingPeriodResultOf m)]"
  unfolding list.pred_inject pitchingPeriodResultOf_rates
  by (intro conjI TrueI rate_per_inning rate_percent)
    (use assms in \<open>auto simp: safeCount_def abs_le_iff\<close>)

lemma gameResults_finite:
  assumes "r \<in> set (gameResults 0 0 gs)"
  shows "isFiniteNum (g_winningPercentage r)"
proof -
  define res where "res = gameResults 0 0 gs"
  from assms obtain k where k: "k < length res" and r: "r = res ! k"
    by (auto simp: res_def in_set_conv_nth)
  have "k < length gs"
    using k by (simp add: res_def gameResults_length)
  from gameResults_percentage [OF this res_def]
  have "g_winningPercentage r = toFixedNumber 3 (safeDiv (ofInt (winsThrough res k)) (ofInt (int (Suc k))))"
    by (simp add: r)
  moreover have "\<bar>winsThrough res k\<bar> \<le> \<bar>int (Suc k)\<bar>"
  proof -
    have "length (filter (\<lambda>x. g_result x = ''W'') (take (Suc k) res)) \<le> length (take (Suc k) res)"
      by (rule length_filter_le)
    then show ?thesis
      by (simp add: winsThrough_def)
  qed
  ultimately show ?thesis
    by (simp add: safeDiv_within toFixedNumber_finite)
qed

lemma battingTrendBuckets_plate_rates:
  assumes "k < length ks" and "bs = battingTrendBuckets p g c ks"
  shows "pb_bbRate (bs ! k) =
           toFixedNumber 1
             (jsmul (safeDiv (ofInt (t_bb c + throughPeriod t_bb bs k + (t_hbp c + throughPeriod t_hbp bs k)))
                             (ofInt (t_ab c + throughPeriod t_ab bs k + (t_bb c + throughPeriod t_bb bs k)
                                     + (t_hbp c + throughPeriod t_hbp bs k) + (t_sf c + throughPeriod t_sf bs k))))
                    (Num 100))
       \<and> pb_soRate (bs ! k) =
           toFixedNumber 1
             (jsmul (safeDiv (ofInt (t_so c + throughPeriod t_so bs k))
                             (ofInt (t_ab c + throughPeriod t_ab bs k + (t_bb c + throughPeriod t_bb bs k)
                                     + (t_hbp c + throughPeriod t_hbp bs k) + (t_sf c + throughPeriod t_sf bs k))))
                    (Num 100))"
  using assms
proof (induction ks arbitrary: c k bs)
  case Nil
  then show ?case by simp
next
  case (Cons key keys)
  define ps where "ps = foldl battingTotalsAdd battingTotalsZero (periodRowsOf g key)"
  define c' where "c' = battingCumulate c ps"
  define rest where "rest = battingTrendBuckets p g c' keys"
  obtain b where bs: "bs = b # rest"
    and b: "t_ab b = t_ab ps" "t_bb b = t_bb ps" "t_hbp b = t_hbp ps" "t_sf b = t_sf ps" "t_so b = t_so ps"
    and rates:
      "pb_bbRate b = toFixedNumber 1 (jsmul (safeDiv (ofInt (t_bb c' + t_hbp c'))
                                        (ofInt (t_ab c' + t_bb c' + t_hbp c' + t_sf c'))) (Num 100))"
      "pb_soRate b = toFixedNumber 1 (jsmul (safeDiv (ofInt (t_so c'))
                                        (ofInt (t_ab c' + t_bb c' + t_hbp c' + t_sf c'))) (Num 100))"
    using Cons.prems(2)
    by (simp add: Let_def ps_def c'_def rest_def battingTotals.defs playerBattingBucket.defs)
  have c': "t_ab c' = t_ab c + t_ab b" "t_bb c' = t_bb c + t_bb b" "t_hbp c' = t_hbp c + t_hbp b"
    "t_sf c' = t_sf c + t_sf b" "t_so c' = t_so c + t_so b"
    by (simp_all add: c'_def battingCumulate_def b)
  show ?case
  proof (cases k)
    case 0
    then show ?thesis
      by (simp add: bs rates c' throughPeriod_0)
  next
    case (Suc k')
    then have "k' < length keys" using Cons.prems(1) by simp
    from Cons.IH [OF this rest_def] show ?thesis
      by (simp add: bs Suc c' throughPeriod_Suc add.assoc)
  qed
qed

lemma playerBattingTrendData_finite:
  assumes "bs = playerBattingTrendData env rows pid target type' period" and "k < length bs"
    and "list_all safeCount
           [throughPeriod t_ab bs k, throughPeriod t_h bs k, throughPeriod t_bb bs k, throughPeriod t_hbp bs k,
            throughPeriod t_sf bs k, throughPeriod t_so bs k, throughPeriod t_doubles bs k,
            throughPeriod t_triples bs k, throughPeriod t_hr bs k]"
  shows "list_all isFiniteNum
           [pb_avg (bs ! k), pb_obp (bs ! k), pb_slg (bs ! k), pb_ops (bs ! k), pb_bbRate (bs ! k),
            pb_soRate (bs ! k)]"
proof -
  define g where "g = groupedRows env pid period rows"
  have run: "bs = battingTrendBuckets period g battingCumulativeZero (sortedKeys g)"
    using assms(1,2) by (auto simp: playerBattingTrendData_def Let_def g_def split: if_splits)
  have k: "k < length (sortedKeys g)"
    using assms(2) by (simp add: run battingTrendBuckets_length)
  have zero: "t_h battingCumulativeZero = 0" "t_ab battingCumulativeZero = 0" "t_bb battingCumulativeZero = 0"
    "t_hbp battingCumulativeZero = 0" "t_sf battingCumulativeZero = 0" "t_doubles battingCumulativeZero = 0"
    "t_triples battingCumulativeZero = 0" "t_hr battingCumulativeZero = 0" "t_so battingCumulativeZero = 0"
    by (simp_all add: battingCumulativeZero_def)
  note r = battingTrendBuckets_rates [OF k run, unfolded zero add_0]
  note q = battingTrendBuckets_plate_rates [OF k run, unfolded zero add_0]
  note eqs = r [THEN conjunct1] r [THEN conjunct2, THEN conjunct1]
    r [THEN conjunct2, THEN conjunct2, THEN conjunct1] r [THEN conjunct2, THEN conjunct2, THEN conjunct2]
    q [THEN conjunct1] q [THEN conjunct2]
  have bounds:
    "\<bar>throughPeriod t_h bs k\<bar> \<le> 2 ^ 60"
    "\<bar>throughPeriod t_h bs k + throughPeriod t_bb bs k + throughPeriod t_hbp bs k\<bar> \<le> 2 ^ 60"
    "\<bar>throughPeriod t_h bs k - throughPeriod t_doubles bs k - throughPeriod t_triples bs k
        - throughPeriod t_hr bs k + throughPeriod t_doubles bs k * 2 + throughPeriod t_triples bs k * 3
        + throughPeriod t_hr bs k * 4\<bar> \<le> 2 ^ 60"
    "\<bar>throughPeriod t_bb bs k + throughPeriod t_hbp bs k\<bar> \<le> 2 ^ 60"
    "\<bar>throughPeriod t_so bs k\<bar> \<le> 2 ^ 60"
    using assms(3) by (auto simp: safeCount_def abs_le_iff)
  show ?thesis
    unfolding list.pred_inject eqs
    by (intro conjI TrueI list.pred_inject(1) rate_quotient rate_sum rate_percent bounds)
qed


lemma playerPitchingTrendData_finite:
  assumes "bs = playerPitchingTrendData env rows pid target type' period" and "k < length bs"
    and "cum = rowsThrough (groupedRows env pid period rows) (sortedKeys (groupedRows env pid period rows)) k"
    and "per = periodRowsOf (groupedRows env pid period rows) (pt_periodKey (bs ! k))"
    and "list_all safeCount
           [total p_outs cum, total p_er cum, total p_bb cum, total p_hbp cum, total p_h cum, total p_so cum,
            total p_outs per, total p_s per]"
  shows "list_all isFiniteNum
           [pt_era (bs ! k), pt_whip (bs ! k), pt_kbb (bs ! k), pt_innings (bs ! k), pt_kPer7 (bs ! k),
            pt_bbPer7 (bs ! k), pt_strikeRate (bs ! k)]"
proof -
  define g where "g = groupedRows env pid period rows"
  have run: "bs = pitchingTrendBuckets period g pitchingTotalsZero (sortedKeys g)"
    using assms(1,2) by (auto simp: playerPitchingTrendData_def Let_def g_def split: if_splits)
  have k: "k < length (sortedKeys g)"
    using assms(2) by (simp add: run pitchingTrendBuckets_length)
  have "map pt_periodKey bs = sortedKeys g"
    by (simp add: run pitchingTrendBuckets_keys)
  then have key: "pt_periodKey (bs ! k) = sortedKeys g ! k"
    using assms(2) by (metis nth_map)
  have zero: "q_outs pitchingTotalsZero = 0" "q_er pitchingTotalsZero = 0" "q_bb pitchingTotalsZero = 0"
    "q_hbp pitchingTotalsZero = 0" "q_h pitchingTotalsZero = 0" "q_so pitchingTotalsZero = 0"
    by (simp_all add: pitchingTotalsZero_def)
  have cum: "rowsThrough g (sortedKeys g) k = cum" and per: "periodRowsOf g (sortedKeys g ! k) = per"
    by (simp_all add: assms(3,4) key g_def)
  note r = pitchingTrendBuckets_nth [OF k run, unfolded zero add_0 cum per]
  note eqs = r [THEN conjunct1] r [THEN conjunct2, THEN conjunct1]
    r [THEN conjunct2, THEN conjunct2, THEN conjunct1]
    r [THEN conjunct2, THEN conjunct2, THEN conjunct2, THEN conjunct1]
    r [THEN conjunct2, THEN conjunct2, THEN conjunct2, THEN conjunct2, THEN conjunct1]
    r [THEN conjunct2, THEN conjunct2, THEN conjunct2, THEN conjunct2, THEN conjunct2, THEN conjunct1]
    r [THEN conjunct2, THEN conjunct2, THEN conjunct2, THEN conjunct2, THEN conjunct2, THEN conjunct2,
       THEN conjunct1]
  have bounds:
    "\<bar>total p_er cum * 7\<bar> \<le> 2 ^ 60"
    "\<bar>total p_bb cum + total p_hbp cum + total p_h cum\<bar> \<le> 2 ^ 60"
    "\<bar>total p_so cum\<bar> \<le> 2 ^ 60"
    "\<bar>total p_so cum * 7\<bar> \<le> 2 ^ 60"
    "\<bar>(total p_bb cum + total p_hbp cum) * 7\<bar> \<le> 2 ^ 60"
    "\<bar>total p_outs per\<bar> \<le> 2 ^ 60"
    "\<bar>total p_s per\<bar> \<le> 2 ^ 60"
    using assms(5) by (auto simp: safeCount_def abs_le_iff)
  show ?thesis
    unfolding list.pred_inject eqs
    by (intro conjI TrueI list.pred_inject(1) rate_quotient rate_per_inning rate_percent
        rate_innings bounds)
qed

lemma aggregatedBatting_finite:
  assumes "s \<in> set (aggregatedBatting rows)"
    and "list_all safeCount [bs_ab s, bs_h s, bs_bb s, bs_hbp s, bs_sf s, bs_so s,
                             bs_doubles s, bs_triples s, bs_hr s]"
  shows "list_all isFiniteNum [bs_avg s, bs_obp s, bs_slg s, bs_ops s, bs_bbK s, bs_isoD s]"
proof -
  from assms(1) obtain st where st: "s = battingSummaryOf st"
    using aggregatedBatting_mem by blast
  from assms(2) show ?thesis
    unfolding st battingSummaryOf_counts by (rule battingSummaryOf_finite)
qed

lemma aggregatedPitching_finite:
  assumes "s \<in> set (aggregatedPitching rows)"
    and "list_all safeCount [ps_outs s, ps_er s, ps_bb s, ps_hbp s, ps_h s, ps_so s]"
  shows "list_all isFiniteNum [ps_era s, ps_whip s, ps_kbb s, ps_inningsVal s]"
proof -
  from assms(1) obtain st where st: "s = pitchingSummaryOf st"
    using aggregatedPitching_mem by blast
  from assms(2) show ?thesis
    unfolding st pitchingSummaryOf_fields(1,2) pitchingSummaryOf_other_rates(4-7)
    by (rule pitchingSummaryOf_finite)
qed

lemma teamTrendBatting_finite:
  assumes "s \<in> set (teamTrendBatting env rows period)"
    and "list_all safeCount [bp_ab s, bp_h s, bp_bb s, bp_hbp s, bp_sf s, bp_so s,
                             bp_doubles s, bp_triples s, bp_hr s]"
  shows "list_all isFiniteNum [bp_avg s, bp_ops s, bp_bbRate s, bp_soRate s]"
proof -
  from assms(1) obtain m where m: "s = battingPeriodResultOf m"
    by (auto simp: teamTrendBatting_def)
  from assms(2) show ?thesis
    unfolding m battingPeriodResultOf_counts(2,3) battingPeriodResultOf_rates(5-11)
    by (rule battingPeriodResultOf_finite)
qed

lemma teamTrendPitching_finite:
  assumes "s \<in> set (teamTrendPitching env rows period)"
    and "list_all safeCount [pp_outs s, pp_er s, pp_h s, pp_bb s, pp_hbp s, pp_so s, pp_s s]"
  shows "list_all isFiniteNum [pp_era s, pp_whip s, pp_kPer7 s, pp_bbPer7 s, pp_strikeRate s]"
proof -
  from assms(1) obtain m where m: "s = pitchingPeriodResultOf m"
    by (auto simp: teamTrendPitching_def)
  from assms(2) show ?thesis
    unfolding m pitchingPeriodResultOf_rates(6-13)
    by (rule pitchingPeriodResultOf_finite)
qed

lemma gameByGameStats_finite:
  assumes "r \<in> set (gameByGameStats env brows prows)"
  shows "isFiniteNum (g_winningPercentage r)"
  using assms unfolding gameByGameStats_unfold by (rule gameResults_finite)

lemma safeDiv_zero_right: "safeDiv a (Num 0) = Num 0"
  by (simp add: safeDiv_def)

lemma safeDiv_finite:
  assumes "\<bar>p\<bar> \<le> 2 ^ 1023 * \<bar>q\<bar>"
  shows "isFiniteNum (safeDiv (Num p) (Num q))"
proof (cases "q = 0")
  case True
  then show ?thesis
    by (simp add: safeDiv_def isFiniteNum_def)
next
  case False
  then have "\<bar>p / q\<bar> \<le> 2 ^ 1023"
    using assms by (simp add: field_simps)
  from fl_finite [OF this] show ?thesis
    using False by (auto simp: safeDiv_def isFiniteNum_def)
qed

lemma noAtBats_counts:
  "bs_ab noAtBats = 0" "bs_h noAtBats = 0" "bs_bb noAtBats = 0" "bs_hbp noAtBats = 0"
  "bs_sf noAtBats = 0" "bs_so noAtBats = 0" "bs_doubles noAtBats = 0" "bs_triples noAtBats = 0"
  "bs_hr noAtBats = 0"
  by (simp_all add: noAtBats_def hitless_def aggregatedBatting_single battingSummaryOf_counts
      battingAdd_def battingInit_def mkBattingRow_def)

text \<open>
  C4, as the specification states it, fails: the quotient of two finite doubles can
  overflow, so that \<open>safeDiv (2^1023) 0.5\<close> is \<open>+\<infinity>\<close>, and \<open>NaN\<close> and the infinities, which
  are numbers too, pass through \<open>safeDiv\<close>.
\<close>

theorem safeDiv_overflow_counterexample:
  "isDouble (2 ^ 1023) \<and> isDouble (1 / 2) \<and> safeDiv (Num (2 ^ 1023)) (Num (1 / 2)) = PInf
   \<and> \<not> isFiniteNum (safeDiv (Num (2 ^ 1023)) (Num (1 / 2)))
   \<and> safeDiv NaN (Num 1) = NaN \<and> safeDiv PInf (Num 1) = PInf"
  by (simp add: isDouble_def safeDiv_def isFiniteNum_def fl_eval)

text \<open>
  C4, amended: \<open>safeDiv a 0 = 0\<close> for every \<open>a\<close>, and \<open>safeDiv 0 b = 0\<close> for \<open>b > 0\<close>; for finite
  \<open>p\<close> and \<open>q\<close> the result is finite when \<open>q = 0\<close> or \<open>\<bar>p / q\<bar> \<le> 2^1023\<close>. Every rate of
  every aggregation path is a finite number, also where its denominator is 0, as long as
  the integer totals it is computed from are at most \<open>2^53\<close> in absolute value: the rates of
  the aggregated batting and pitching summaries, of the team trend, and of the player
  trends; the winning percentage of the game outcomes is finite without any condition.
\<close>

theorem safeDiv_well_formed:
  "safeDiv a (Num 0) = Num 0
   \<and> (0 < b \<longrightarrow> safeDiv (Num 0) (Num b) = Num 0)
   \<and> (\<bar>p\<bar> \<le> 2 ^ 1023 * \<bar>q\<bar> \<longrightarrow> isFiniteNum (safeDiv (Num p) (Num q)))
   \<and> (batter \<in> set (aggregatedBatting brows)
      \<and> list_all safeCount [bs_ab batter, bs_h batter, bs_bb batter, bs_hbp batter, bs_sf batter,
                             bs_so batter, bs_doubles batter, bs_triples batter, bs_hr batter]
      \<longrightarrow> list_all isFiniteNum [bs_avg batter, bs_obp batter, bs_slg batter, bs_ops batter,
                                 bs_bbK batter, bs_isoD batter])
   \<and> (pitcher \<in> set (aggregatedPitching prows)
      \<and> list_all safeCount [ps_outs pitcher, ps_er pitcher, ps_bb pitcher, ps_hbp pitcher, ps_h pitcher,
                             ps_so pitcher]
      \<longrightarrow> list_all isFiniteNum [ps_era pitcher, ps_whip pitcher, ps_kbb pitcher, ps_inningsVal pitcher])
   \<and> (teamBatting \<in> set (teamTrendBatting env brows period)
      \<and> list_all safeCount [bp_ab teamBatting, bp_h teamBatting, bp_bb teamBatting, bp_hbp teamBatting,
                             bp_sf teamBatting, bp_so teamBatting, bp_doubles teamBatting,
                             bp_triples teamBatting, bp_hr teamBatting]
      \<longrightarrow> list_all isFiniteNum [bp_avg teamBatting, bp_ops teamBatting, bp_bbRate teamBatting,
                                 bp_soRate teamBatting])
   \<and> (teamPitching \<in> set (teamTrendPitching env prows period)
      \<and> list_all safeCount [pp_outs teamPitching, pp_er teamPitching, pp_h teamPitching, pp_bb teamPitching,
                             pp_hbp teamPitching, pp_so teamPitching, pp_s teamPitching]
      \<longrightarrow> list_all isFiniteNum [pp_era teamPitching, pp_whip teamPitching, pp_kPer7 teamPitching,
                                 pp_bbPer7 teamPitching, pp_strikeRate teamPitching])
   \<and> (outcome \<in> set (gameByGameStats env brows prows) \<longrightarrow> isFiniteNum (g_winningPercentage outcome))
   \<and> (let trend = playerBattingTrendData env brows pid target type' period
      in k < length trend
         \<and> list_all safeCount
             [throughPeriod t_ab trend k, throughPeriod t_h trend k, throughPeriod t_bb trend k,
              throughPeriod t_hbp trend k, throughPeriod t_sf trend k, throughPeriod t_so trend k,
              throughPeriod t_doubles trend k, throughPeriod t_triples trend k, throughPeriod t_hr trend k]
         \<longrightarrow> list_all isFiniteNum
               [pb_avg (trend ! k), pb_obp (trend ! k), pb_slg (trend ! k), pb_ops (trend ! k),
                pb_bbRate (trend ! k), pb_soRate (trend ! k)])
   \<and> (let trend = playerPitchingTrendData env prows pid target type' period;
          grouped = groupedRows env pid period prows;
          cum = rowsThrough grouped (sortedKeys grouped) k;
          per = periodRowsOf grouped (pt_periodKey (trend ! k))
      in k < length trend
         \<and> list_all safeCount
             [total p_outs cum, total p_er cum, total p_bb cum, total p_hbp cum, total p_h cum,
              total p_so cum, total p_outs per, total p_s per]
         \<longrightarrow> list_all isFiniteNum
               [pt_era (trend ! k), pt_whip (trend ! k), pt_kbb (trend ! k), pt_innings (trend ! k),
                pt_kPer7 (trend ! k), pt_bbPer7 (trend ! k), pt_strikeRate (trend ! k)])"
proof (intro conjI impI)
  show "safeDiv a (Num 0) = Num 0"
    by (rule safeDiv_zero_right)
  show "safeDiv (Num 0) (Num b) = Num 0"
    by (simp add: safeDiv_zero_left)
  show "isFiniteNum (safeDiv (Num p) (Num q))" if "\<bar>p\<bar> \<le> 2 ^ 1023 * \<bar>q\<bar>"
    using that by (rule safeDiv_finite)
  show "list_all isFiniteNum [bs_avg batter, bs_obp batter, bs_slg batter, bs_ops batter,
                              bs_bbK batter, bs_isoD batter]"
    if "batter \<in> set (aggregatedBatting brows)
      \<and> list_all safeCount [bs_ab batter, bs_h batter, bs_bb batter, bs_hbp batter, bs_sf batter,
                             bs_so batter, bs_doubles batter, bs_triples batter, bs_hr batter]"
    using that aggregatedBatting_finite by blast
  show "list_all isFiniteNum [ps_era pitcher, ps_whip pitcher, ps_kbb pitcher, ps_inningsVal pitcher]"
    if "pitcher \<in> set (aggregatedPitching prows)
      \<and> list_all safeCount [ps_outs pitcher, ps_er pitcher, ps_bb pitcher, ps_hbp pitcher, ps_h pitcher,
                             ps_so pitcher]"
    using that aggregatedPitching_finite by blast
  show "list_all isFiniteNum [bp_avg teamBatting, bp_ops teamBatting, bp_bbRate teamBatting,
                              bp_soRate teamBatting]"
    if "teamBatting \<in> set (teamTrendBatting env brows period)
      \<and> list_all safeCount [bp_ab teamBatting, bp_h teamBatting, bp_bb teamBatting, bp_hbp teamBatting,
                             bp_sf teamBatting, bp_so teamBatting, bp_doubles teamBatting,
                             bp_triples teamBatting, bp_hr teamBatting]"
    using that teamTrendBatting_finite by blast
  show "list_all isFiniteNum [pp_era teamPitching, pp_whip teamPitching, pp_kPer7 teamPitching,
                              pp_bbPer7 teamPitching, pp_strikeRate teamPitching]"
    if "teamPitching \<in> set (teamTrendPitching env prows period)
      \<and> list_all safeCount [pp_outs teamPitching, pp_er teamPitching, pp_h teamPitching, pp_bb teamPitching,
                             pp_hbp teamPitching, pp_so teamPitching, pp_s teamPitching]"
    using that teamTrendPitching_finite by blast
  show "isFiniteNum (g_winningPercentage outcome)" if "outcome \<in> set (gameByGameStats env brows prows)"
    using that by (rule gameByGameStats_finite)
  show "let trend = playerBattingTrendData env brows pid target type' period
      in k < length trend
         \<and> list_all safeCount
             [throughPeriod t_ab trend k, throughPeriod t_h trend k, throughPeriod t_bb trend k,
              throughPeriod t_hbp trend k, throughPeriod t_sf trend k, throughPeriod t_so trend k,
              throughPeriod t_doubles trend k, throughPeriod t_triples trend k, throughPeriod t_hr trend k]
         \<longrightarrow> list_all isFiniteNum
               [pb_avg (trend ! k), pb_obp (trend ! k), pb_slg (trend ! k), pb_ops (trend ! k),
                pb_bbRate (trend ! k), pb_soRate (trend ! k)]"
    unfolding Let_def using playerBattingTrendData_finite [OF refl] by blast
  show "let trend = playerPitchingTrendData env prows pid target type' period;
          grouped = groupedRows env pid period prows;
          cum = rowsThrough grouped (sortedKeys grouped) k;
          per = periodRowsOf grouped (pt_periodKey (trend ! k))
      in k < length trend
         \<and> list_all safeCount
             [total p_outs cum, total p_er cum, total p_bb cum, total p_hbp cum, total p_h cum,
              total p_so cum, total p_outs per, total p_s per]
         \<longrightarrow> list_all isFiniteNum
               [pt_era (trend ! k), pt_whip (trend ! k), pt_kbb (trend ! k), pt_innings (trend ! k),
                pt_kPer7 (trend ! k), pt_bbPer7 (trend ! k), pt_strikeRate (trend ! k)]"
    unfolding Let_def using playerPitchingTrendData_finite [OF refl _ refl refl] by blast
qed

theorem safeDiv_well_formed_witness:
  "safeDiv NaN (Num 0) = Num 0 \<and> safeDiv (Num 0) (Num 3) = Num 0 \<and> isFiniteNum (safeDiv (Num 1) (Num 3))
   \<and> bs_ab noAtBats = 0
   \<and> list_all isFiniteNum [bs_avg noAtBats, bs_obp noAtBats, bs_slg noAtBats, bs_ops noAtBats,
                            bs_bbK noAtBats, bs_isoD noAtBats]"
proof -
  have mem: "noAtBats \<in> set (aggregatedBatting [hitless])"
    by (simp add: noAtBats_def aggregatedBatting_single)
  from safeDiv_well_formed [where a = NaN and b = 3 and p = 1 and q = 3 and batter = noAtBats
      and brows = "[hitless]"]
  show ?thesis
    using mem by (simp add: noAtBats_counts safeCount_def)
qed

end
